theory Spec2Isabelle
  imports Main "HOL-Library.Word"
begin

section \<open>orafce \<open>file.c\<close>: the UTL_FILE package\<close>

text \<open>
  A shallow embedding of \<open>src/file.c\<close>. Every \<open>ereport(ERROR, ...)\<close> of the source is a
  value of type \<open>error\<close>; an entry point returns its result together with the state
  it leaves behind, since an error raised by \<open>ereport\<close> does not undo the assignments
  made before it.
\<close>

subsection \<open>Errors\<close>

datatype error =
    ERRCODE_NULL_VALUE_NOT_ALLOWED
      \<comment> \<open>\<open>NOT_NULL_ARG\<close>\<close>
  | ERRCODE_INVALID_PARAMETER_VALUE
      \<comment> \<open>\<open>NON_EMPTY_TEXT\<close>: "Empty string isn't allowed."\<close>
  | ERRCODE_INTERNAL_ERROR
      \<comment> \<open>the SPI failures of \<open>check_secure_locality\<close>\<close>
  | ERRCODE_PROGRAM_LIMIT_EXCEEDED
  | ERRCODE_NO_DATA_FOUND
  | ERRCODE_CHARACTER_NOT_IN_REPERTOIRE
      \<comment> \<open>raised inside \<open>pg_verifymbstr(..., false)\<close>\<close>
  | INVALID_OPERATION
  | WRITE_ERROR
  | READ_ERROR
  | INVALID_FILEHANDLE
  | INVALID_MAXLINESIZE
  | INVALID_MODE
  | INVALID_PATH
  | VALUE_ERROR
  | UNDEFINED_BEHAVIOUR
      \<comment> \<open>a C library call on a \<open>FILE *\<close> that is \<open>NULL\<close> or already closed\<close>

text \<open>The values of \<open>errno\<close> that the source tells apart; every other value is \<open>EOTHER\<close>.\<close>

datatype errno = EACCES | EBADF | ENAMETOOLONG | ENOENT | ENOTDIR | EOTHER nat

text \<open>\<open>IO_EXCEPTION\<close>: the \<open>switch (errno)\<close> shared by open, remove and rename.\<close>

fun IO_EXCEPTION :: "errno \<Rightarrow> error" where
  "IO_EXCEPTION EACCES = INVALID_PATH"
| "IO_EXCEPTION ENAMETOOLONG = INVALID_PATH"
| "IO_EXCEPTION ENOENT = INVALID_PATH"
| "IO_EXCEPTION ENOTDIR = INVALID_PATH"
| "IO_EXCEPTION e = INVALID_OPERATION"

subsection \<open>Streams and the state of the session\<close>

text \<open>
  A C stream (\<open>FILE\<close>): the bytes \<open>fgetc\<close> has not delivered yet, the \<open>errno\<close> with which
  \<open>fgetc\<close> fails once they are used up (\<open>None\<close>: plain end of file), the bytes written
  so far, the \<open>errno\<close> with which a write fails (\<open>None\<close>: writes succeed) and the
  \<open>errno\<close> with which \<open>fclose\<close> fails (\<open>None\<close>: it returns 0).
\<close>

record FILE =
  pending :: string
  rd_errno :: "errno option"
  written :: string
  wr_errno :: "errno option"
  cl_errno :: "errno option"

text \<open>\<open>struct FileSlot\<close>; the \<open>FILE *\<close> is an address, \<open>None\<close> for \<open>NULL\<close>.\<close>

record FileSlot =
  slot_file :: "nat option"
  slot_max_linesize :: int
  slot_id :: "32 word"

definition MAX_LINESIZE :: int where
  "MAX_LINESIZE = 32767"

definition MAX_SLOTS :: nat where
  "MAX_SLOTS = 50"

definition INVALID_SLOTID :: "32 word" where
  "INVALID_SLOTID = 0"

text \<open>
  The static variables \<open>slots\<close>, \<open>slotid\<close> and \<open>plan\<close> (the saved SPI plan of
  \<open>check_secure_locality\<close>, here only whether it is set), the streams that are open
  in the C library, by address, and the files of the file system, by path.
\<close>

record state =
  slots :: "FileSlot list"
  slotid :: "32 word"
  plan :: bool
  streams :: "nat \<rightharpoonup> FILE"
  files :: "string \<rightharpoonup> string"

definition empty_slot :: FileSlot where
  "empty_slot = \<lparr>slot_file = None, slot_max_linesize = 0, slot_id = 0\<rparr>"

definition init_state :: state where
  "init_state = \<lparr>slots = replicate MAX_SLOTS empty_slot, slotid = 0, plan = False,
     streams = Map.empty, files = Map.empty\<rparr>"

text \<open>
  What the code calls and \<open>src/\<close> does not hold: PostgreSQL's \<open>canonicalize_path\<close> and
  \<open>pg_verifymbstr\<close>, the rows of the table \<open>utl_file.utl_file_dir\<close>, whether the three
  SPI calls succeed, and the answers of the operating system to \<open>fopen\<close>, \<open>stat\<close> and
  \<open>rename\<close> (an \<open>errno\<close>, or for \<open>fopen\<close> the address and the stream).
\<close>

record env =
  canonicalize_path :: "string \<Rightarrow> string"
  pg_verifymbstr :: "string \<Rightarrow> bool"
  utl_file_dir :: "string list"
  SPI_connect_ok :: bool
  SPI_prepare_ok :: bool
  SPI_execute_ok :: bool
  fopen :: "string \<Rightarrow> string \<Rightarrow> errno + nat \<times> FILE"
  stat_errno :: "string \<Rightarrow> errno option"
  rename_errno :: "string \<Rightarrow> string \<Rightarrow> errno option"

subsection \<open>The path check\<close>

text \<open>
  The query of \<open>check_secure_locality\<close>,
  \<open>SELECT 1 FROM utl_file.utl_file_dir WHERE substring($1, 1, length(dir) + 1) = dir || '/'\<close>,
  on one row.
\<close>

definition dir_matches :: "string \<Rightarrow> string \<Rightarrow> bool" where
  "dir_matches path dir = (take (length dir + 1) path = dir @ ''/'')"

definition check_secure_locality :: "env \<Rightarrow> state \<Rightarrow> string \<Rightarrow> (error + unit) \<times> state" where
  "check_secure_locality e st path =
     (if path = ''/tmp/regress_orafce'' then (Inr (), st)
      else if \<not> SPI_connect_ok e then (Inl ERRCODE_INTERNAL_ERROR, st)
      else if \<not> plan st \<and> \<not> SPI_prepare_ok e then (Inl ERRCODE_INTERNAL_ERROR, st)
      else
        let st1 = st\<lparr>plan := True\<rparr> in
        if \<not> SPI_execute_ok e then (Inl ERRCODE_INTERNAL_ERROR, st1)
        else if filter (dir_matches path) (utl_file_dir e) = [] then (Inl INVALID_PATH, st1)
        else (Inr (), st1))"

definition get_safe_path :: "env \<Rightarrow> state \<Rightarrow> string \<Rightarrow> string \<Rightarrow> (error + string) \<times> state" where
  "get_safe_path e st location filename =
     (if location = [] then (Inl ERRCODE_INVALID_PARAMETER_VALUE, st)
      else if filename = [] then (Inl ERRCODE_INVALID_PARAMETER_VALUE, st)
      else
        let fullname = canonicalize_path e (location @ ''/'' @ filename) in
        case check_secure_locality e st fullname of
          (Inl err, st1) \<Rightarrow> (Inl err, st1)
        | (Inr u, st1) \<Rightarrow> (Inr fullname, st1))"

subsection \<open>The handle table\<close>

text \<open>
  The loops \<open>for (i = 0; i < MAX_SLOTS; i++)\<close> that stop at the first slot with a given
  property: the index of that slot, counted from \<open>i\<close>.
\<close>

fun find_slot :: "(FileSlot \<Rightarrow> bool) \<Rightarrow> FileSlot list \<Rightarrow> nat \<Rightarrow> nat option" where
  "find_slot P [] i = None"
| "find_slot P (s # ss) i = (if P s then Some i else find_slot P ss (Suc i))"

definition get_descriptor :: "state \<Rightarrow> nat \<Rightarrow> int \<Rightarrow> 32 word \<times> state" where
  "get_descriptor st f max_linesize =
     (case find_slot (\<lambda>s. slot_id s = INVALID_SLOTID) (take MAX_SLOTS (slots st)) 0 of
        None \<Rightarrow> (INVALID_SLOTID, st)
      | Some i \<Rightarrow>
          let slotid1 = slotid st + 1;
              slotid2 = (if slotid1 = INVALID_SLOTID then slotid1 + 1 else slotid1)
          in (slotid2,
              st\<lparr>slots := (slots st)[i := \<lparr>slot_file = Some f,
                     slot_max_linesize = max_linesize, slot_id = slotid2\<rparr>],
                 slotid := slotid2\<rparr>))"

definition get_stream :: "state \<Rightarrow> 32 word \<Rightarrow> error + nat option \<times> int" where
  "get_stream st d =
     (if d = INVALID_SLOTID then Inl INVALID_FILEHANDLE
      else case find_slot (\<lambda>s. slot_id s = d) (take MAX_SLOTS (slots st)) 0 of
        None \<Rightarrow> Inl INVALID_FILEHANDLE
      | Some i \<Rightarrow> Inr (slot_file (slots st ! i), slot_max_linesize (slots st ! i)))"

text \<open>
  \<open>fclose\<close> of the C library: the stream is gone whether or not the call succeeds; the
  result is the \<open>errno\<close> of a failure. On an address that holds no open stream the
  call is undefined (\<open>None\<close>).
\<close>

definition fclose :: "state \<Rightarrow> nat \<Rightarrow> (errno option \<times> state) option" where
  "fclose st p =
     (case streams st p of
        None \<Rightarrow> None
      | Some f \<Rightarrow> Some (cl_errno f, st\<lparr>streams := (streams st)(p := None)\<rparr>))"

subsection \<open>\<open>utl_file_fopen\<close>\<close>

definition CHECK_LINESIZE :: "int \<Rightarrow> bool" where
  "CHECK_LINESIZE max_linesize = (\<not> (max_linesize < 1 \<or> max_linesize > MAX_LINESIZE))"

text \<open>The \<open>switch\<close> on the mode letter; \<open>None\<close> is its \<open>default\<close> branch.\<close>

definition fopen_mode :: "char \<Rightarrow> string option" where
  "fopen_mode c =
     (if c = CHR ''a'' \<or> c = CHR ''A'' then Some ''a''
      else if c = CHR ''r'' \<or> c = CHR ''R'' then Some ''r''
      else if c = CHR ''w'' \<or> c = CHR ''W'' then Some ''w''
      else None)"

text \<open>The part of \<open>utl_file_fopen\<close> after the comment \<open>/* open file */\<close>.\<close>

definition open_file :: "env \<Rightarrow> state \<Rightarrow> string \<Rightarrow> string \<Rightarrow> string \<Rightarrow> int \<Rightarrow>
    (error + 32 word) \<times> state" where
  "open_file e st location filename mode max_linesize =
     (case get_safe_path e st location filename of
        (Inl err, st1) \<Rightarrow> (Inl err, st1)
      | (Inr fullname, st1) \<Rightarrow>
          (case fopen e fullname mode of
             Inl en \<Rightarrow> (Inl (IO_EXCEPTION en), st1)
           | Inr (p, f) \<Rightarrow>
               let st2 = st1\<lparr>streams := (streams st1)(p \<mapsto> f)\<rparr> in
               (case get_descriptor st2 p max_linesize of
                  (d, st3) \<Rightarrow>
                    if d = INVALID_SLOTID then
                      (case fclose st3 p of
                         None \<Rightarrow> (Inl UNDEFINED_BEHAVIOUR, st3)
                       | Some (rc, st4) \<Rightarrow> (Inl ERRCODE_PROGRAM_LIMIT_EXCEEDED, st4))
                    else (Inr d, st3))))"

definition utl_file_fopen :: "env \<Rightarrow> state \<Rightarrow> string option \<Rightarrow> string option \<Rightarrow>
    string option \<Rightarrow> int option \<Rightarrow> (error + 32 word) \<times> state" where
  "utl_file_fopen e st location filename open_mode max_linesize =
     (case (location, filename, open_mode, max_linesize) of
        (Some loc, Some fname, Some om, Some mls) \<Rightarrow>
          if om = [] then (Inl ERRCODE_INVALID_PARAMETER_VALUE, st)
          else if \<not> CHECK_LINESIZE mls then (Inl INVALID_MAXLINESIZE, st)
          else if length om \<noteq> 1 then (Inl INVALID_MODE, st)
          else
            (case fopen_mode (hd om) of
               None \<Rightarrow> (Inl INVALID_MODE, st)
             | Some mode \<Rightarrow> open_file e st loc fname mode mls)
      | _ \<Rightarrow> (Inl ERRCODE_NULL_VALUE_NOT_ALLOWED, st))"

subsection \<open>Reading a line\<close>

definition CR :: char where
  "CR = CHR 0x0D"

definition LF :: char where
  "LF = CHR 0x0A"

text \<open>
  \<open>fgetc\<close> and \<open>ungetc\<close> of the C library. \<open>fgetc\<close> returns \<open>None\<close> for \<open>EOF\<close>; the
  third component is the variable \<open>errno\<close>, which a failing read sets and the end of
  the file leaves as it is.
\<close>

definition fgetc :: "FILE \<Rightarrow> errno option \<Rightarrow> char option \<times> FILE \<times> errno option" where
  "fgetc f en =
     (case pending f of
        [] \<Rightarrow> (None, f, (case rd_errno f of None \<Rightarrow> en | Some x \<Rightarrow> Some x))
      | c # cs \<Rightarrow> (Some c, f\<lparr>pending := cs\<rparr>, en))"

definition ungetc :: "char \<Rightarrow> FILE \<Rightarrow> FILE" where
  "ungetc c f = f\<lparr>pending := c # pending f\<rparr>"

text \<open>
  The \<open>while\<close> loop of \<open>get_line\<close>, on the variables \<open>f\<close>, \<open>csize\<close>, \<open>buffer\<close> (the
  bytes stored through \<open>bpt\<close>), \<open>eof\<close> and \<open>errno\<close>.
\<close>

function get_line_loop :: "FILE \<Rightarrow> int \<Rightarrow> int \<Rightarrow> string \<Rightarrow> bool \<Rightarrow> errno option \<Rightarrow>
    FILE \<times> int \<times> string \<times> bool \<times> errno option" where
  "get_line_loop f max_linesize csize buffer eof en =
     (if csize < max_linesize then
        (case fgetc f en of
           (None, f1, en1) \<Rightarrow> (f1, csize, buffer, eof, en1)
         | (Some c, f1, en1) \<Rightarrow>
             if c = CR then
               (case fgetc f1 en1 of
                  (None, f2, en2) \<Rightarrow> (f2, csize, buffer, False, en2)
                | (Some c2, f2, en2) \<Rightarrow>
                    (if c2 \<noteq> LF then ungetc c2 f2 else f2, csize, buffer, False, en2))
             else if c = LF then (f1, csize, buffer, False, en1)
             else get_line_loop f1 max_linesize (csize + 1) (buffer @ [c]) False en1)
      else (f, csize, buffer, eof, en))"
  by pat_completeness auto
termination
  by (relation "measure (\<lambda>(f, max_linesize, csize, buffer, eof, en). length (pending f))")
     (auto simp: fgetc_def split: list.splits)

declare get_line_loop.simps [simp del]

text \<open>
  \<open>get_line\<close>: the result text (\<open>None\<close> for the \<open>NULL\<close> pointer) and \<open>*iseof\<close>, with the
  stream as the reads leave it.
\<close>

definition get_line :: "env \<Rightarrow> FILE \<Rightarrow> int \<Rightarrow> (error + string option \<times> bool) \<times> FILE" where
  "get_line e f max_linesize =
     (case get_line_loop f max_linesize 0 [] True None of
        (f1, csize, buffer, eof, en) \<Rightarrow>
          if \<not> eof then
            (if pg_verifymbstr e (take (nat csize) buffer)
             then (Inr (Some (take (nat csize) buffer), False), f1)
             else (Inl ERRCODE_CHARACTER_NOT_IN_REPERTOIRE, f1))
          else
            (case en of
               None \<Rightarrow> (Inr (None, True), f1)
             | Some x \<Rightarrow> (Inl (if x = EBADF then INVALID_OPERATION else READ_ERROR), f1)))"

text \<open>
  The call \<open>get_line(f, max_linesize, &iseof)\<close> of an entry point, where \<open>f\<close> is the
  pointer that \<open>get_stream\<close> returned.
\<close>

definition read_stream :: "env \<Rightarrow> state \<Rightarrow> nat option \<Rightarrow> int \<Rightarrow>
    (error + string option \<times> bool) \<times> state" where
  "read_stream e st fp max_linesize =
     (case fp of
        None \<Rightarrow> (Inl UNDEFINED_BEHAVIOUR, st)
      | Some p \<Rightarrow>
          (case streams st p of
             None \<Rightarrow> (Inl UNDEFINED_BEHAVIOUR, st)
           | Some f \<Rightarrow>
               (case get_line e f max_linesize of
                  (r, f1) \<Rightarrow> (r, st\<lparr>streams := (streams st)(p \<mapsto> f1)\<rparr>))))"

text \<open>
  \<open>utl_file_get_line\<close>; \<open>len\<close> is \<open>None\<close> when the call has one argument or the second
  is null.
\<close>

definition utl_file_get_line :: "env \<Rightarrow> state \<Rightarrow> 32 word option \<Rightarrow> int option \<Rightarrow>
    (error + string option) \<times> state" where
  "utl_file_get_line e st file len =
     (case file of
        None \<Rightarrow> (Inl INVALID_FILEHANDLE, st)
      | Some d \<Rightarrow>
          (case get_stream st d of
             Inl err \<Rightarrow> (Inl err, st)
           | Inr (fp, max_linesize) \<Rightarrow>
               (case len of
                  None \<Rightarrow>
                    (case read_stream e st fp max_linesize of
                       (Inl err, st1) \<Rightarrow> (Inl err, st1)
                     | (Inr (result, iseof), st1) \<Rightarrow>
                         if iseof then (Inl ERRCODE_NO_DATA_FOUND, st1) else (Inr result, st1))
                | Some l \<Rightarrow>
                    if \<not> CHECK_LINESIZE l then (Inl INVALID_MAXLINESIZE, st)
                    else
                      (case read_stream e st fp (if max_linesize > l then l else max_linesize) of
                         (Inl err, st1) \<Rightarrow> (Inl err, st1)
                       | (Inr (result, iseof), st1) \<Rightarrow>
                           if iseof then (Inl ERRCODE_NO_DATA_FOUND, st1)
                           else (Inr result, st1)))))"

definition utl_file_get_nextline :: "env \<Rightarrow> state \<Rightarrow> 32 word option \<Rightarrow>
    (error + string option) \<times> state" where
  "utl_file_get_nextline e st file =
     (case file of
        None \<Rightarrow> (Inl INVALID_FILEHANDLE, st)
      | Some d \<Rightarrow>
          (case get_stream st d of
             Inl err \<Rightarrow> (Inl err, st)
           | Inr (fp, max_linesize) \<Rightarrow>
               (case read_stream e st fp max_linesize of
                  (Inl err, st1) \<Rightarrow> (Inl err, st1)
                | (Inr (result, iseof), st1) \<Rightarrow>
                    if iseof then (Inr None, st1) else (Inr result, st1))))"

subsection \<open>Writing\<close>

text \<open>\<open>CHECK_ERRNO_PUT\<close>: the \<open>switch (errno)\<close> after a failed write.\<close>

definition CHECK_ERRNO_PUT :: "errno \<Rightarrow> error" where
  "CHECK_ERRNO_PUT en = (if en = EBADF then INVALID_OPERATION else WRITE_ERROR)"

text \<open>
  \<open>fputc\<close>, \<open>fputs\<close>, \<open>fwrite\<close> and \<open>fflush\<close> of the C library; the first component is the
  \<open>errno\<close> of a failure, \<open>None\<close> when the call succeeds.
\<close>

definition fputc :: "char \<Rightarrow> FILE \<Rightarrow> errno option \<times> FILE" where
  "fputc c f =
     (case wr_errno f of
        Some en \<Rightarrow> (Some en, f)
      | None \<Rightarrow> (None, f\<lparr>written := written f @ [c]\<rparr>))"

definition fputs :: "string \<Rightarrow> FILE \<Rightarrow> errno option \<times> FILE" where
  "fputs s f =
     (case wr_errno f of
        Some en \<Rightarrow> (Some en, f)
      | None \<Rightarrow> (None, f\<lparr>written := written f @ s\<rparr>))"

definition fwrite :: "string \<Rightarrow> FILE \<Rightarrow> errno option \<times> FILE" where
  "fwrite s f = fputs s f"

definition fflush :: "FILE \<Rightarrow> errno option" where
  "fflush f = wr_errno f"

text \<open>
  The statements \<open>CHECK_LENGTH(++cur_len); if (fputc(c, f) == EOF) CHECK_ERRNO_PUT();\<close>
  of \<open>utl_file_putf\<close>, where \<open>cur_len\<close> is the value after the increment.
\<close>

definition put_char :: "int \<Rightarrow> char \<Rightarrow> FILE \<Rightarrow> int \<Rightarrow> error + FILE" where
  "put_char max_linesize c f cur_len =
     (if cur_len > max_linesize then Inl VALUE_ERROR
      else case fputc c f of
        (Some en, f1) \<Rightarrow> Inl (CHECK_ERRNO_PUT en)
      | (None, f1) \<Rightarrow> Inr f1)"

definition BACKSLASH :: char where
  "BACKSLASH = CHR 0x5C"

text \<open>
  Argument number \<open>n\<close> of a call of \<open>utl_file_putf\<close> (\<open>None\<close>: null), where \<open>args\<close> holds
  the arguments from number 2 on (\<open>arg1\<close> to \<open>arg5\<close> of the SQL function).
\<close>

definition putf_arg :: "string option list \<Rightarrow> nat \<Rightarrow> string option" where
  "putf_arg args n = (if 2 \<le> n \<and> n - 2 < length args then args ! (n - 2) else None)"

text \<open>
  The \<open>for\<close> loop of \<open>utl_file_putf\<close>; the third argument is the format from \<open>fpt\<close> on,
  whose length is \<open>format_length\<close>.
\<close>

fun putf_loop :: "string option list \<Rightarrow> int \<Rightarrow> string \<Rightarrow> FILE \<Rightarrow> nat \<Rightarrow> int \<Rightarrow>
    (error + unit) \<times> FILE" where
  "putf_loop args max_linesize [] f cur_par cur_len = (Inr (), f)"
| "putf_loop args max_linesize [c] f cur_par cur_len =
     (case put_char max_linesize c f (cur_len + 1) of
        Inl err \<Rightarrow> (Inl err, f)
      | Inr f1 \<Rightarrow> putf_loop args max_linesize [] f1 cur_par (cur_len + 1))"
| "putf_loop args max_linesize (c # c1 # fmt) f cur_par cur_len =
     (if c = BACKSLASH \<and> c1 = CHR ''n'' then
        (case put_char max_linesize LF f (cur_len + 1) of
           Inl err \<Rightarrow> (Inl err, f)
         | Inr f1 \<Rightarrow> putf_loop args max_linesize fmt f1 cur_par (cur_len + 1))
      else if c = CHR ''%'' then
        (if c1 = CHR ''%'' then
           (case put_char max_linesize (CHR ''%'') f (cur_len + 1) of
              Inl err \<Rightarrow> (Inl err, f)
            | Inr f1 \<Rightarrow> putf_loop args max_linesize fmt f1 cur_par (cur_len + 1))
         else if c1 = CHR ''s'' then
           (if cur_par + 1 \<le> 5 then
              (case putf_arg args (cur_par + 1 + 1) of
                 Some buffer \<Rightarrow>
                   if cur_len + int (length buffer) > max_linesize then (Inl VALUE_ERROR, f)
                   else
                     (case fputs buffer f of
                        (Some en, f1) \<Rightarrow> (Inl (CHECK_ERRNO_PUT en), f1)
                      | (None, f1) \<Rightarrow>
                          putf_loop args max_linesize fmt f1 (cur_par + 1)
                            (cur_len + int (length buffer)))
               | None \<Rightarrow> putf_loop args max_linesize fmt f (cur_par + 1) cur_len)
            else putf_loop args max_linesize fmt f (cur_par + 1) cur_len)
         else putf_loop args max_linesize fmt f cur_par cur_len)
      else
        (case put_char max_linesize c f (cur_len + 1) of
           Inl err \<Rightarrow> (Inl err, f)
         | Inr f1 \<Rightarrow> putf_loop args max_linesize (c1 # fmt) f1 cur_par (cur_len + 1)))"

definition utl_file_putf :: "state \<Rightarrow> 32 word option \<Rightarrow> string option \<Rightarrow> string option list \<Rightarrow>
    (error + bool) \<times> state" where
  "utl_file_putf st file format args =
     (case file of
        None \<Rightarrow> (Inl INVALID_FILEHANDLE, st)
      | Some d \<Rightarrow>
          (case get_stream st d of
             Inl err \<Rightarrow> (Inl err, st)
           | Inr (fp, max_linesize) \<Rightarrow>
               (case format of
                  None \<Rightarrow> (Inl ERRCODE_NULL_VALUE_NOT_ALLOWED, st)
                | Some fmt \<Rightarrow>
                    (case fp of
                       None \<Rightarrow> (Inl UNDEFINED_BEHAVIOUR, st)
                     | Some p \<Rightarrow>
                         (case streams st p of
                            None \<Rightarrow> (Inl UNDEFINED_BEHAVIOUR, st)
                          | Some f \<Rightarrow>
                              (case putf_loop args max_linesize fmt f 0 0 of
                                 (Inl err, f1) \<Rightarrow>
                                   (Inl err, st\<lparr>streams := (streams st)(p \<mapsto> f1)\<rparr>)
                               | (Inr u, f1) \<Rightarrow>
                                   (Inr True, st\<lparr>streams := (streams st)(p \<mapsto> f1)\<rparr>)))))))"

subsection \<open>Closing\<close>

text \<open>
  The body that \<open>utl_file_fclose\<close> and \<open>utl_file_fclose_all\<close> run on slot \<open>i\<close>: close the
  stream if the slot has one, raise if that fails, clear the slot otherwise.
\<close>

definition close_slot :: "state \<Rightarrow> nat \<Rightarrow> (error + unit) \<times> state" where
  "close_slot st i =
     (case slot_file (slots st ! i) of
        None \<Rightarrow>
          (Inr (), st\<lparr>slots := (slots st)[i := (slots st ! i)\<lparr>slot_file := None,
                      slot_id := INVALID_SLOTID\<rparr>]\<rparr>)
      | Some p \<Rightarrow>
          (case fclose st p of
             None \<Rightarrow> (Inl UNDEFINED_BEHAVIOUR, st)
           | Some (Some en, st1) \<Rightarrow>
               (Inl (if en = EBADF then INVALID_FILEHANDLE else WRITE_ERROR), st1)
           | Some (None, st1) \<Rightarrow>
               (Inr (), st1\<lparr>slots := (slots st1)[i := (slots st1 ! i)\<lparr>slot_file := None,
                           slot_id := INVALID_SLOTID\<rparr>]\<rparr>)))"

text \<open>\<open>utl_file_fclose\<close> reads its argument with \<open>PG_GETARG_INT32(0)\<close> and no null check.\<close>

definition utl_file_fclose :: "state \<Rightarrow> 32 word \<Rightarrow> (error + unit) \<times> state" where
  "utl_file_fclose st d =
     (case find_slot (\<lambda>s. slot_id s = d) (take MAX_SLOTS (slots st)) 0 of
        None \<Rightarrow> (Inl INVALID_FILEHANDLE, st)
      | Some i \<Rightarrow> close_slot st i)"

text \<open>The \<open>for\<close> loop of \<open>utl_file_fclose_all\<close> over the indices still to visit.\<close>

fun fclose_all_loop :: "state \<Rightarrow> nat list \<Rightarrow> (error + unit) \<times> state" where
  "fclose_all_loop st [] = (Inr (), st)"
| "fclose_all_loop st (i # is) =
     (if slot_id (slots st ! i) \<noteq> INVALID_SLOTID then
        (case close_slot st i of
           (Inl err, st1) \<Rightarrow> (Inl err, st1)
         | (Inr u, st1) \<Rightarrow> fclose_all_loop st1 is)
      else fclose_all_loop st is)"

definition utl_file_fclose_all :: "state \<Rightarrow> (error + unit) \<times> state" where
  "utl_file_fclose_all st = fclose_all_loop st [0..<MAX_SLOTS]"

subsection \<open>Renaming\<close>

text \<open>
  \<open>stat\<close> and \<open>rename\<close> of the operating system, as far as the code depends on them:
  \<open>stat\<close> fails with \<open>ENOENT\<close> on a path that names no file, and \<open>rename\<close> replaces the
  destination (the source's comment: \<open>rename() overwrites existing files\<close>). Either
  may fail with the \<open>errno\<close> the environment gives.
\<close>

definition stat :: "env \<Rightarrow> state \<Rightarrow> string \<Rightarrow> errno option" where
  "stat e st path =
     (case stat_errno e path of
        Some en \<Rightarrow> Some en
      | None \<Rightarrow> (case files st path of None \<Rightarrow> Some ENOENT | Some c \<Rightarrow> None))"

definition rename :: "env \<Rightarrow> state \<Rightarrow> string \<Rightarrow> string \<Rightarrow> errno option \<times> state" where
  "rename e st src dst =
     (case rename_errno e src dst of
        Some en \<Rightarrow> (Some en, st)
      | None \<Rightarrow>
          (case files st src of
             None \<Rightarrow> (Some ENOENT, st)
           | Some c \<Rightarrow> (None, st\<lparr>files := ((files st)(src := None))(dst \<mapsto> c)\<rparr>)))"

text \<open>The call of \<open>rename\<close> that ends \<open>utl_file_frename\<close>, with its \<open>IO_EXCEPTION\<close>.\<close>

definition rename_file :: "env \<Rightarrow> state \<Rightarrow> string \<Rightarrow> string \<Rightarrow> (error + unit) \<times> state" where
  "rename_file e st srcpath dstpath =
     (case rename e st srcpath dstpath of
        (Some en, st1) \<Rightarrow> (Inl (IO_EXCEPTION en), st1)
      | (None, st1) \<Rightarrow> (Inr (), st1))"

text \<open>
  \<open>utl_file_frename\<close>; \<open>overwrite\<close> is \<open>None\<close> when the call has four arguments or the
  fifth is null.
\<close>

definition utl_file_frename :: "env \<Rightarrow> state \<Rightarrow> string option \<Rightarrow> string option \<Rightarrow>
    string option \<Rightarrow> string option \<Rightarrow> bool option \<Rightarrow> (error + unit) \<times> state" where
  "utl_file_frename e st src_location src_filename dst_location dst_filename overwrite =
     (case (src_location, src_filename, dst_location, dst_filename) of
        (Some sl, Some sf, Some dl, Some df) \<Rightarrow>
          (case get_safe_path e st sl sf of
             (Inl err, st1) \<Rightarrow> (Inl err, st1)
           | (Inr srcpath, st1) \<Rightarrow>
               (case get_safe_path e st1 dl df of
                  (Inl err, st2) \<Rightarrow> (Inl err, st2)
                | (Inr dstpath, st2) \<Rightarrow>
                    if \<not> (case overwrite of None \<Rightarrow> False | Some b \<Rightarrow> b) then
                      (case stat e st2 dstpath of
                         None \<Rightarrow> (Inl WRITE_ERROR, st2)
                       | Some en \<Rightarrow>
                           if en \<noteq> ENOENT then (Inl (IO_EXCEPTION en), st2)
                           else rename_file e st2 srcpath dstpath)
                    else rename_file e st2 srcpath dstpath))
      | _ \<Rightarrow> (Inl ERRCODE_NULL_VALUE_NOT_ALLOWED, st))"

subsection \<open>An environment and states to run the definitions on\<close>

definition example_file :: FILE where
  "example_file = \<lparr>pending = [], rd_errno = None, written = [], wr_errno = None,
     cl_errno = None\<rparr>"

text \<open>
  Paths are taken to be canonical already, every text is well-formed, the table
  \<open>utl_file.utl_file_dir\<close> has the one row \<open>/tmp/allowed\<close>, and every \<open>fopen\<close> succeeds with
  an empty stream, at address 101 for the file \<open>/tmp/allowed/b\<close> and at address 100 for
  any other.
\<close>

definition example_env :: env where
  "example_env = \<lparr>canonicalize_path = (\<lambda>p. p), pg_verifymbstr = (\<lambda>s. True),
     utl_file_dir = [''/tmp/allowed''], SPI_connect_ok = True, SPI_prepare_ok = True,
     SPI_execute_ok = True,
     fopen = (\<lambda>path mode. Inr (if path = ''/tmp/allowed/b'' then 101 else 100, example_file)),
     stat_errno = (\<lambda>p. None), rename_errno = (\<lambda>s d. None)\<rparr>"

text \<open>A file system with the two files \<open>/tmp/allowed/a\<close> and \<open>/tmp/allowed/b\<close>.\<close>

definition two_files_state :: state where
  "two_files_state = init_state\<lparr>files := [''/tmp/allowed/a'' \<mapsto> ''AAA'', ''/tmp/allowed/b'' \<mapsto> ''BBB'']\<rparr>"

text \<open>A table with all slots taken: slot \<open>i\<close> holds the stream at address \<open>i\<close> under the id \<open>i + 1\<close>.\<close>

definition full_state :: state where
  "full_state = init_state\<lparr>
     slots := map (\<lambda>i. \<lparr>slot_file = Some i, slot_max_linesize = 1024, slot_id = of_nat (i + 1)\<rparr>)
                [0..<MAX_SLOTS],
     slotid := of_nat MAX_SLOTS,
     streams := (\<lambda>p. if p < MAX_SLOTS then Some example_file else None)\<rparr>"

text \<open>
  A table with two open handles, 1 and 2, on the streams at 100 and 101, whose
  \<open>fclose\<close> fails with the given \<open>errno\<close> (\<open>None\<close>: it succeeds).
\<close>

definition two_open_state :: "errno option \<Rightarrow> errno option \<Rightarrow> state" where
  "two_open_state c0 c1 =
     \<lparr>slots = [\<lparr>slot_file = Some 100, slot_max_linesize = 1024, slot_id = 1\<rparr>,
               \<lparr>slot_file = Some 101, slot_max_linesize = 1024, slot_id = 2\<rparr>]
              @ replicate 48 empty_slot,
      slotid = 2, plan = True,
      streams = [100 \<mapsto> example_file\<lparr>cl_errno := c0\<rparr>, 101 \<mapsto> example_file\<lparr>cl_errno := c1\<rparr>],
      files = Map.empty\<rparr>"

text \<open>
  A table with the one handle 1, of line size 1024, on a stream at address 100 that
  still has the given input to deliver and accepts writes.
\<close>

definition reading_state :: "string \<Rightarrow> state" where
  "reading_state input =
     \<lparr>slots = \<lparr>slot_file = Some 100, slot_max_linesize = 1024, slot_id = 1\<rparr>
               # replicate 49 empty_slot,
      slotid = 1, plan = True,
      streams = [100 \<mapsto> example_file\<lparr>pending := input\<rparr>],
      files = Map.empty\<rparr>"

subsection \<open>The states a session can reach\<close>

text \<open>The handle table of \<open>st'\<close> is that of \<open>st\<close>: the same slots and the same counter.\<close>

definition same_table :: "state \<Rightarrow> state \<Rightarrow> bool" where
  "same_table st st' = (slots st' = slots st \<and> slotid st' = slotid st)"

text \<open>
  \<open>reach n st\<close>: the session that started with an empty table is in state \<open>st\<close> after
  some calls of the entry points above, \<open>n\<close> of them calls of \<open>utl_file_fopen\<close>. (The
  entry points of \<open>file.c\<close> that are not modelled here, \<open>utl_file_is_open\<close>, \<open>utl_file_put\<close>,
  \<open>utl_file_put_line\<close>, \<open>utl_file_new_line\<close>, \<open>utl_file_fflush\<close>, \<open>utl_file_fremove\<close>,
  \<open>utl_file_fgetattr\<close> and \<open>utl_file_tmpdir\<close>, assign to neither \<open>slots\<close> nor \<open>slotid\<close>.)
\<close>

inductive reach :: "nat \<Rightarrow> state \<Rightarrow> bool" where
  reach_init: "reach 0 init_state"
| reach_fopen: "reach n st \<Longrightarrow>
    reach (Suc n) (snd (utl_file_fopen e st location filename open_mode max_linesize))"
| reach_fclose: "reach n st \<Longrightarrow> reach n (snd (utl_file_fclose st d))"
| reach_fclose_all: "reach n st \<Longrightarrow> reach n (snd (utl_file_fclose_all st))"
| reach_get_line: "reach n st \<Longrightarrow> reach n (snd (utl_file_get_line e st fh len))"
| reach_get_nextline: "reach n st \<Longrightarrow> reach n (snd (utl_file_get_nextline e st fh))"
| reach_putf: "reach n st \<Longrightarrow> reach n (snd (utl_file_putf st fh format args))"
| reach_frename: "reach n st \<Longrightarrow> reach n (snd (utl_file_frename e st sl sf dl df ov))"

definition reachable :: "state \<Rightarrow> bool" where
  "reachable st = (\<exists>n. reach n st)"

text \<open>No id other than \<open>INVALID_SLOTID\<close> stands in two slots.\<close>

definition ids_unique :: "state \<Rightarrow> bool" where
  "ids_unique st =
     (\<forall>i<MAX_SLOTS. \<forall>j<MAX_SLOTS.
        slot_id (slots st ! i) \<noteq> INVALID_SLOTID \<and> slot_id (slots st ! i) = slot_id (slots st ! j)
          \<longrightarrow> i = j)"

text \<open>
  The invariant behind the uniqueness of ids after \<open>n\<close> calls of \<open>utl_file_fopen\<close>: the
  counter is at most \<open>n\<close>, and no slot holds an id beyond the counter.
\<close>

definition table_inv :: "nat \<Rightarrow> state \<Rightarrow> bool" where
  "table_inv n st =
     (length (slots st) = MAX_SLOTS \<and> unat (slotid st) \<le> n
      \<and> (\<forall>i<MAX_SLOTS. unat (slot_id (slots st ! i)) \<le> unat (slotid st))
      \<and> ids_unique st)"

text \<open>
  The states of a session that opens \<open>/tmp/allowed/a\<close> and keeps it open, and then opens
  and closes \<open>/tmp/allowed/b\<close> again and again: \<open>mid_state k\<close> when the counter is \<open>k\<close> and
  \<open>b\<close> is closed, \<open>dup_state\<close> after the open of \<open>b\<close> that takes the counter past
  \<open>2^32 - 1\<close>.
\<close>

definition mid_state :: "nat \<Rightarrow> state" where
  "mid_state k =
     \<lparr>slots = [\<lparr>slot_file = Some 100, slot_max_linesize = 1024, slot_id = 1\<rparr>,
               \<lparr>slot_file = None, slot_max_linesize = 1024, slot_id = 0\<rparr>]
              @ replicate 48 empty_slot,
      slotid = of_nat k, plan = True,
      streams = [100 \<mapsto> example_file],
      files = Map.empty\<rparr>"

definition dup_state :: state where
  "dup_state =
     \<lparr>slots = [\<lparr>slot_file = Some 100, slot_max_linesize = 1024, slot_id = 1\<rparr>,
               \<lparr>slot_file = Some 101, slot_max_linesize = 1024, slot_id = 1\<rparr>]
              @ replicate 48 empty_slot,
      slotid = 1, plan = True,
      streams = [100 \<mapsto> example_file, 101 \<mapsto> example_file],
      files = Map.empty\<rparr>"

text \<open>
  The state of that session when \<open>/tmp/allowed/b\<close> is open under the id \<open>k\<close>.
\<close>

definition busy_state :: "nat \<Rightarrow> state" where
  "busy_state k =
     \<lparr>slots = [\<lparr>slot_file = Some 100, slot_max_linesize = 1024, slot_id = 1\<rparr>,
               \<lparr>slot_file = Some 101, slot_max_linesize = 1024, slot_id = of_nat k\<rparr>]
              @ replicate 48 empty_slot,
      slotid = of_nat k, plan = True,
      streams = [100 \<mapsto> example_file, 101 \<mapsto> example_file],
      files = Map.empty\<rparr>"

text \<open>
  The id that follows the counter value \<open>c\<close>, in the words of the specification: the next
  value of the 32-bit counter, and 1 where that would be the reserved 0, which is after
  \<open>c = 2^32 - 1\<close> (the word \<open>- 1\<close>).
\<close>

definition next_id :: "32 word \<Rightarrow> 32 word" where
  "next_id c = (if c = - 1 then 1 else c + 1)"

subsection \<open>A line of the input, in the words of the specification\<close>

text \<open>
  The line that a read with room for \<open>n\<close> characters returns: the characters before the
  first \<open>CR\<close> or \<open>LF\<close>, \<open>n\<close> of them at most.
\<close>

definition line_of :: "nat \<Rightarrow> string \<Rightarrow> string" where
  "line_of n input = take n (takeWhile (\<lambda>c. c \<noteq> CR \<and> c \<noteq> LF) input)"

text \<open>
  The input behind a line terminator at its head: \<open>LF\<close>, \<open>CR LF\<close>, or a \<open>CR\<close> that is the
  last character or stands before a character other than \<open>LF\<close>, which stays in the input.
\<close>

fun skip_terminator :: "string \<Rightarrow> string" where
  "skip_terminator [] = []"
| "skip_terminator [c] = (if c = CR \<or> c = LF then [] else [c])"
| "skip_terminator (c # c2 # cs) =
     (if c = LF then c2 # cs
      else if c = CR then (if c2 = LF then cs else c2 # cs)
      else c # c2 # cs)"

text \<open>
  The input that such a read leaves: behind the terminator when the line ended before
  \<open>n\<close> characters were stored, behind the \<open>n\<close> characters otherwise.
\<close>

definition rest_of :: "nat \<Rightarrow> string \<Rightarrow> string" where
  "rest_of n input =
     (if length (takeWhile (\<lambda>c. c \<noteq> CR \<and> c \<noteq> LF) input) < n
      then skip_terminator (dropWhile (\<lambda>c. c \<noteq> CR \<and> c \<noteq> LF) input)
      else drop n input)"

subsection \<open>The output of a format, as the specification words it and as amended\<close>

text \<open>
  The characters that a format is said to produce, \<open>cur_par\<close> arguments having been
  used: a newline for the two characters \<open>\n\<close>, \<open>%\<close> for \<open>%%\<close>, for \<open>%s\<close> the next
  argument when it is one of the first five and not null and nothing otherwise, and
  every other character as it is.
\<close>

fun putf_claimed :: "string option list \<Rightarrow> nat \<Rightarrow> string \<Rightarrow> string" where
  "putf_claimed args cur_par [] = []"
| "putf_claimed args cur_par [c] = [c]"
| "putf_claimed args cur_par (c # c1 # fmt) =
     (if c = BACKSLASH \<and> c1 = CHR ''n'' then LF # putf_claimed args cur_par fmt
      else if c = CHR ''%'' \<and> c1 = CHR ''%'' then CHR ''%'' # putf_claimed args cur_par fmt
      else if c = CHR ''%'' \<and> c1 = CHR ''s'' then
        (if cur_par + 1 \<le> 5
         then (case putf_arg args (cur_par + 1 + 1) of Some buffer \<Rightarrow> buffer | None \<Rightarrow> [])
         else [])
        @ putf_claimed args (cur_par + 1) fmt
      else c # putf_claimed args cur_par (c1 # fmt))"

text \<open>
  The same with one more rule: a \<open>%\<close> before any character other than \<open>%\<close> and \<open>s\<close>
  produces nothing, and that character produces nothing either.
\<close>

fun putf_output :: "string option list \<Rightarrow> nat \<Rightarrow> string \<Rightarrow> string" where
  "putf_output args cur_par [] = []"
| "putf_output args cur_par [c] = [c]"
| "putf_output args cur_par (c # c1 # fmt) =
     (if c = BACKSLASH \<and> c1 = CHR ''n'' then LF # putf_output args cur_par fmt
      else if c = CHR ''%'' \<and> c1 = CHR ''%'' then CHR ''%'' # putf_output args cur_par fmt
      else if c = CHR ''%'' \<and> c1 = CHR ''s'' then
        (if cur_par + 1 \<le> 5
         then (case putf_arg args (cur_par + 1 + 1) of Some buffer \<Rightarrow> buffer | None \<Rightarrow> [])
         else [])
        @ putf_output args (cur_par + 1) fmt
      else if c = CHR ''%'' then putf_output args cur_par fmt
      else c # putf_output args cur_par (c1 # fmt))"

text \<open>
  The pieces in which that output is written, one for each write of the loop: a single
  character, or the whole argument of a \<open>%s\<close>.
\<close>

fun putf_tokens :: "string option list \<Rightarrow> nat \<Rightarrow> string \<Rightarrow> string list" where
  "putf_tokens args cur_par [] = []"
| "putf_tokens args cur_par [c] = [[c]]"
| "putf_tokens args cur_par (c # c1 # fmt) =
     (if c = BACKSLASH \<and> c1 = CHR ''n'' then [LF] # putf_tokens args cur_par fmt
      else if c = CHR ''%'' \<and> c1 = CHR ''%'' then [CHR ''%''] # putf_tokens args cur_par fmt
      else if c = CHR ''%'' \<and> c1 = CHR ''s'' then
        (if cur_par + 1 \<le> 5
         then (case putf_arg args (cur_par + 1 + 1) of Some buffer \<Rightarrow> [buffer] | None \<Rightarrow> [])
         else [])
        @ putf_tokens args (cur_par + 1) fmt
      else if c = CHR ''%'' then putf_tokens args cur_par fmt
      else [c] # putf_tokens args cur_par (c1 # fmt))"

text \<open>
  The pieces before the first one that does not fit any more in a line with room for
  \<open>room\<close> characters.
\<close>

fun fitting :: "int \<Rightarrow> string list \<Rightarrow> string list" where
  "fitting room [] = []"
| "fitting room (t # ts) =
     (if int (length t) \<le> room then t # fitting (room - int (length t)) ts else [])"

text \<open>
  A table with the one handle 1, of the given line size, on a stream at address 100
  that accepts writes and has nothing written yet.
\<close>

definition writing_state :: "int \<Rightarrow> state" where
  "writing_state max_linesize =
     \<lparr>slots = \<lparr>slot_file = Some 100, slot_max_linesize = max_linesize, slot_id = 1\<rparr>
               # replicate 49 empty_slot,
      slotid = 1, plan = True,
      streams = [100 \<mapsto> example_file],
      files = Map.empty\<rparr>"



section \<open>Properties\<close>

subsection \<open>Opening: the mode letter\<close>

lemma IO_EXCEPTION_cases: "IO_EXCEPTION en = INVALID_PATH \<or> IO_EXCEPTION en = INVALID_OPERATION"
  by (cases en) simp_all

lemma check_secure_locality_errors:
  "fst (check_secure_locality e st path) \<in> {Inr (), Inl ERRCODE_INTERNAL_ERROR, Inl INVALID_PATH}"
  by (simp add: check_secure_locality_def Let_def)

lemma get_safe_path_errors:
  "fst (get_safe_path e st loc fname) = Inl err \<Longrightarrow>
     err \<in> {ERRCODE_INVALID_PARAMETER_VALUE, ERRCODE_INTERNAL_ERROR, INVALID_PATH}"
  using check_secure_locality_errors [of e st "canonicalize_path e (loc @ ''/'' @ fname)"]
  by (auto simp: get_safe_path_def Let_def split: if_splits prod.splits sum.splits)

lemma open_file_errors:
  "fst (open_file e st loc fname mode mls) = Inl err \<Longrightarrow>
     err \<in> {ERRCODE_INVALID_PARAMETER_VALUE, ERRCODE_INTERNAL_ERROR, INVALID_PATH,
            INVALID_OPERATION, UNDEFINED_BEHAVIOUR, ERRCODE_PROGRAM_LIMIT_EXCEEDED}"
proof -
  assume a: "fst (open_file e st loc fname mode mls) = Inl err"
  obtain r st1 where g: "get_safe_path e st loc fname = (r, st1)"
    by (cases "get_safe_path e st loc fname")
  show ?thesis
  proof (cases r)
    case (Inl err')
    with a g have "err = err'" by (simp add: open_file_def)
    with get_safe_path_errors [of e st loc fname err'] g Inl show ?thesis by auto
  next
    case (Inr fullname)
    show ?thesis
    proof (cases "fopen e fullname mode")
      case (Inl en)
      with a g Inr have "err = IO_EXCEPTION en" by (simp add: open_file_def)
      with IO_EXCEPTION_cases [of en] show ?thesis by auto
    next
      case (Inr pf)
      with a g \<open>r = Inr fullname\<close> show ?thesis
        by (cases pf) (auto simp: open_file_def Let_def split: prod.splits option.splits if_splits)
    qed
  qed
qed

text \<open>
  Claim C10, as amended. With non-null arguments and a line size in 1..32767,
  \<open>utl_file_fopen\<close> treats each of the mode strings \<open>a\<close>, \<open>A\<close>, \<open>r\<close>, \<open>R\<close>, \<open>w\<close>, \<open>W\<close> as
  the lowercase letter and goes on to open the file, which never fails with
  \<open>INVALID_MODE\<close>; every other mode string of one character and every mode string of
  two or more characters fails with \<open>INVALID_MODE\<close>; the empty mode string fails with
  \<open>ERRCODE_INVALID_PARAMETER_VALUE\<close> (\<open>NON_EMPTY_TEXT\<close> runs first).
\<close>

theorem fopen_mode_letter:
  assumes "CHECK_LINESIZE mls"
  shows "utl_file_fopen e st (Some loc) (Some fname) (Some om) (Some mls) =
     (if om = [] then (Inl ERRCODE_INVALID_PARAMETER_VALUE, st)
      else if om = ''a'' \<or> om = ''A'' then open_file e st loc fname ''a'' mls
      else if om = ''r'' \<or> om = ''R'' then open_file e st loc fname ''r'' mls
      else if om = ''w'' \<or> om = ''W'' then open_file e st loc fname ''w'' mls
      else (Inl INVALID_MODE, st))
    \<and> fst (open_file e st loc fname mode mls) \<noteq> Inl INVALID_MODE"
proof -
  have "fst (open_file e st loc fname mode mls) \<noteq> Inl INVALID_MODE"
    using open_file_errors [of e st loc fname mode mls INVALID_MODE] by auto
  moreover have "utl_file_fopen e st (Some loc) (Some fname) (Some om) (Some mls) =
     (if om = [] then (Inl ERRCODE_INVALID_PARAMETER_VALUE, st)
      else if om = ''a'' \<or> om = ''A'' then open_file e st loc fname ''a'' mls
      else if om = ''r'' \<or> om = ''R'' then open_file e st loc fname ''r'' mls
      else if om = ''w'' \<or> om = ''W'' then open_file e st loc fname ''w'' mls
      else (Inl INVALID_MODE, st))"
  proof (cases om)
    case Nil
    then show ?thesis by (simp add: utl_file_fopen_def)
  next
    case (Cons c cs)
    show ?thesis
    proof (cases cs)
      case Nil
      with Cons assms show ?thesis
        by (simp add: utl_file_fopen_def fopen_mode_def)
    next
      case (Cons c' cs')
      with \<open>om = c # cs\<close> assms show ?thesis
        by (simp add: utl_file_fopen_def)
    qed
  qed
  ultimately show ?thesis by simp
qed

lemma CHECK_LINESIZE_1024: "CHECK_LINESIZE 1024"
  by (simp add: CHECK_LINESIZE_def MAX_LINESIZE_def)

text \<open>The theorem of C10 at the modes \<open>r\<close>, \<open>R\<close>, \<open>x\<close> and \<open>rw\<close>.\<close>

theorem fopen_mode_letter_witness:
  "CHECK_LINESIZE 1024
   \<and> utl_file_fopen example_env init_state (Some ''/tmp/allowed'') (Some ''f'') (Some ''r'') (Some 1024)
     = open_file example_env init_state ''/tmp/allowed'' ''f'' ''r'' 1024
   \<and> utl_file_fopen example_env init_state (Some ''/tmp/allowed'') (Some ''f'') (Some ''R'') (Some 1024)
     = open_file example_env init_state ''/tmp/allowed'' ''f'' ''r'' 1024
   \<and> utl_file_fopen example_env init_state (Some ''/tmp/allowed'') (Some ''f'') (Some ''x'') (Some 1024)
     = (Inl INVALID_MODE, init_state)
   \<and> utl_file_fopen example_env init_state (Some ''/tmp/allowed'') (Some ''f'') (Some ''rw'') (Some 1024)
     = (Inl INVALID_MODE, init_state)
   \<and> fst (open_file example_env init_state ''/tmp/allowed'' ''f'' ''r'' 1024) = Inr 1"
proof -
  note t = fopen_mode_letter [OF CHECK_LINESIZE_1024, of example_env init_state "''/tmp/allowed''" "''f''"]
  have "fst (open_file example_env init_state ''/tmp/allowed'' ''f'' ''r'' 1024) = Inr 1"
    by (simp add: open_file_def
     get_safe_path_def check_secure_locality_def example_env_def init_state_def dir_matches_def
     get_descriptor_def MAX_SLOTS_def empty_slot_def INVALID_SLOTID_def eval_nat_numeral)
  with t [of "''r''"] t [of "''R''"] t [of "''x''"] t [of "''rw''"] CHECK_LINESIZE_1024
  show ?thesis by simp
qed

text \<open>
  Claim C10 as stated fails at the empty mode string: its length is not one, and the
  call fails with \<open>ERRCODE_INVALID_PARAMETER_VALUE\<close>, not with \<open>INVALID_MODE\<close>.
\<close>

theorem fopen_empty_mode_counterexample:
  "fst (utl_file_fopen example_env init_state (Some ''/tmp/allowed'') (Some ''f'') (Some []) (Some 1024))
     = Inl ERRCODE_INVALID_PARAMETER_VALUE
   \<and> length ([] :: string) \<noteq> 1
   \<and> fst (utl_file_fopen example_env init_state (Some ''/tmp/allowed'') (Some ''f'') (Some []) (Some 1024))
     \<noteq> Inl INVALID_MODE"
  by (simp add: utl_file_fopen_def)

subsection \<open>The path check\<close>

lemma dir_matches_iff: "dir_matches path dir \<longleftrightarrow> (\<exists>rest. path = dir @ ''/'' @ rest)"
proof
  assume "dir_matches path dir"
  then have "take (length dir + 1) path = dir @ ''/''" by (simp add: dir_matches_def)
  then have "path = (dir @ ''/'') @ drop (length dir + 1) path"
    by (metis append_take_drop_id)
  then show "\<exists>rest. path = dir @ ''/'' @ rest" by (metis append.assoc)
next
  assume "\<exists>rest. path = dir @ ''/'' @ rest"
  then show "dir_matches path dir" by (auto simp: dir_matches_def)
qed

lemma filter_dir_matches:
  "filter (dir_matches path) dirs = [] \<longleftrightarrow> \<not> (\<exists>dir \<in> set dirs. \<exists>rest. path = dir @ ''/'' @ rest)"
  by (simp add: filter_empty_conv dir_matches_iff)

text \<open>
  Claim C1, as amended. For a non-empty directory and file name, \<open>get_safe_path\<close>
  accepts the canonical form of \<open>directory/filename\<close> if it is the fixed path
  \<open>/tmp/regress_orafce\<close> (no lookup is made), and otherwise, when the three SPI calls
  succeed, if and only if it is some row of \<open>utl_file.utl_file_dir\<close> followed by \<open>/\<close> and
  any rest; when no row matches it fails with \<open>INVALID_PATH\<close>. An empty directory or file
  name fails with \<open>ERRCODE_INVALID_PARAMETER_VALUE\<close>, a failing SPI call with
  \<open>ERRCODE_INTERNAL_ERROR\<close>.
\<close>

theorem get_safe_path_allowed:
  "fst (get_safe_path e st location filename) =
     (if location = [] \<or> filename = [] then Inl ERRCODE_INVALID_PARAMETER_VALUE
      else if canonicalize_path e (location @ ''/'' @ filename) = ''/tmp/regress_orafce''
        then Inr ''/tmp/regress_orafce''
      else if \<not> SPI_connect_ok e \<or> (\<not> plan st \<and> \<not> SPI_prepare_ok e) \<or> \<not> SPI_execute_ok e
        then Inl ERRCODE_INTERNAL_ERROR
      else if (\<exists>dir \<in> set (utl_file_dir e). \<exists>rest.
                 canonicalize_path e (location @ ''/'' @ filename) = dir @ ''/'' @ rest)
        then Inr (canonicalize_path e (location @ ''/'' @ filename))
      else Inl INVALID_PATH)"
proof -
  let ?p = "canonicalize_path e (location @ ''/'' @ filename)"
  have c: "fst (check_secure_locality e st ?p) =
     (if ?p = ''/tmp/regress_orafce'' then Inr ()
      else if \<not> SPI_connect_ok e \<or> (\<not> plan st \<and> \<not> SPI_prepare_ok e) \<or> \<not> SPI_execute_ok e
        then Inl ERRCODE_INTERNAL_ERROR
      else if (\<exists>dir \<in> set (utl_file_dir e). \<exists>rest. ?p = dir @ ''/'' @ rest) then Inr ()
      else Inl INVALID_PATH)"
    unfolding check_secure_locality_def Let_def filter_dir_matches by auto
  obtain r st1 where g: "check_secure_locality e st ?p = (r, st1)"
    by (cases "check_secure_locality e st ?p")
  show ?thesis
  proof (cases "location = [] \<or> filename = []")
    case True
    then show ?thesis by (auto simp: get_safe_path_def)
  next
    case False
    then have "fst (get_safe_path e st location filename) =
      (case r of Inl err \<Rightarrow> Inl err | Inr u \<Rightarrow> Inr ?p)"
      using g by (simp add: get_safe_path_def Let_def split: sum.splits)
    with c g False show ?thesis by (auto split: sum.splits if_splits)
  qed
qed

text \<open>
  The theorem of C1 with the one row \<open>/tmp/allowed\<close>: a file under it is accepted, a file
  under \<open>/tmp/allowed_evil\<close> is not.
\<close>

theorem get_safe_path_allowed_witness:
  "fst (get_safe_path example_env init_state ''/tmp/allowed'' ''f.txt'') = Inr ''/tmp/allowed/f.txt''
   \<and> fst (get_safe_path example_env init_state ''/tmp/allowed_evil'' ''f.txt'') = Inl INVALID_PATH
   \<and> fst (get_safe_path example_env init_state ''/tmp/allowed'' []) = Inl ERRCODE_INVALID_PARAMETER_VALUE"
  using get_safe_path_allowed [of example_env init_state "''/tmp/allowed''" "''f.txt''"]
    get_safe_path_allowed [of example_env init_state "''/tmp/allowed_evil''" "''f.txt''"]
    get_safe_path_allowed [of example_env init_state "''/tmp/allowed''" "[]"]
  by (simp add: example_env_def init_state_def)

text \<open>
  Claim C1 as stated fails at the directory \<open>/tmp\<close> and the file name \<open>regress_orafce\<close>: the
  path is accepted although no row of the table matches it.
\<close>

theorem get_safe_path_sentinel_counterexample:
  "fst (get_safe_path example_env init_state ''/tmp'' ''regress_orafce'') = Inr ''/tmp/regress_orafce''
   \<and> canonicalize_path example_env (''/tmp'' @ ''/'' @ ''regress_orafce'') = ''/tmp/regress_orafce''
   \<and> filter (dir_matches ''/tmp/regress_orafce'') (utl_file_dir example_env) = []"
  by (simp add: get_safe_path_def check_secure_locality_def example_env_def dir_matches_def)

subsection \<open>Renaming\<close>

text \<open>
  Claim C9. Both paths having passed the path check: without \<open>overwrite\<close> (false, null or
  not given), a destination that \<open>stat\<close> finds fails with \<open>WRITE_ERROR\<close> and the state is
  the one before \<open>rename\<close> would run; a \<open>stat\<close> failure other than \<open>ENOENT\<close> is reported
  through \<open>IO_EXCEPTION\<close>, which is never \<open>WRITE_ERROR\<close>. With \<open>overwrite\<close> the result is
  that of \<open>rename\<close> alone, whatever \<open>stat\<close> would answer, and a successful \<open>rename\<close>
  leaves the source's contents at the destination.
\<close>

theorem frename_overwrite:
  assumes "get_safe_path e st sl sf = (Inr srcpath, st1)"
      and "get_safe_path e st1 dl df = (Inr dstpath, st2)"
  shows "(stat e st2 dstpath = None \<longrightarrow>
            utl_file_frename e st (Some sl) (Some sf) (Some dl) (Some df) (Some False)
              = (Inl WRITE_ERROR, st2))
       \<and> (stat e st2 dstpath = Some en \<and> en \<noteq> ENOENT \<longrightarrow>
            utl_file_frename e st (Some sl) (Some sf) (Some dl) (Some df) (Some False)
              = (Inl (IO_EXCEPTION en), st2)
            \<and> IO_EXCEPTION en \<noteq> WRITE_ERROR)
       \<and> utl_file_frename e st (Some sl) (Some sf) (Some dl) (Some df) None
            = utl_file_frename e st (Some sl) (Some sf) (Some dl) (Some df) (Some False)
       \<and> utl_file_frename e st (Some sl) (Some sf) (Some dl) (Some df) (Some True)
            = rename_file e st2 srcpath dstpath
       \<and> (rename_errno e srcpath dstpath = None \<and> files st2 srcpath = Some c \<longrightarrow>
            utl_file_frename e st (Some sl) (Some sf) (Some dl) (Some df) (Some True)
              = (Inr (), st2\<lparr>files := ((files st2)(srcpath := None))(dstpath \<mapsto> c)\<rparr>))"
proof -
  have "IO_EXCEPTION en \<noteq> WRITE_ERROR" by (cases en) simp_all
  with assms show ?thesis
    by (simp add: utl_file_frename_def rename_file_def rename_def)
qed

text \<open>
  The theorem of C9 on the files \<open>a\<close> and \<open>b\<close> of \<open>/tmp/allowed\<close>, and with a \<open>stat\<close> that
  fails with \<open>EACCES\<close>.
\<close>

theorem frename_overwrite_witness:
  "utl_file_frename example_env two_files_state (Some ''/tmp/allowed'') (Some ''a'')
      (Some ''/tmp/allowed'') (Some ''b'') (Some False) = (Inl WRITE_ERROR, two_files_state\<lparr>plan := True\<rparr>)
   \<and> fst (utl_file_frename example_env two_files_state (Some ''/tmp/allowed'') (Some ''a'')
      (Some ''/tmp/allowed'') (Some ''b'') (Some True)) = Inr ()
   \<and> files (snd (utl_file_frename example_env two_files_state (Some ''/tmp/allowed'') (Some ''a'')
      (Some ''/tmp/allowed'') (Some ''b'') (Some True))) ''/tmp/allowed/b'' = Some ''AAA''
   \<and> fst (utl_file_frename (example_env\<lparr>stat_errno := (\<lambda>p. Some EACCES)\<rparr>) two_files_state
      (Some ''/tmp/allowed'') (Some ''a'') (Some ''/tmp/allowed'') (Some ''b'') (Some False))
      = Inl INVALID_PATH"
proof -
  have g1: "get_safe_path example_env two_files_state ''/tmp/allowed'' ''a''
      = (Inr ''/tmp/allowed/a'', two_files_state\<lparr>plan := True\<rparr>)"
    by (simp add: get_safe_path_def check_secure_locality_def example_env_def dir_matches_def Let_def
        two_files_state_def init_state_def)
  have g2: "get_safe_path example_env (two_files_state\<lparr>plan := True\<rparr>) ''/tmp/allowed'' ''b''
      = (Inr ''/tmp/allowed/b'', two_files_state\<lparr>plan := True\<rparr>)"
    by (simp add: get_safe_path_def check_secure_locality_def example_env_def dir_matches_def Let_def
        two_files_state_def init_state_def)
  have g3: "get_safe_path (example_env\<lparr>stat_errno := (\<lambda>p. Some EACCES)\<rparr>) two_files_state ''/tmp/allowed'' ''a''
      = (Inr ''/tmp/allowed/a'', two_files_state\<lparr>plan := True\<rparr>)"
    by (simp add: get_safe_path_def check_secure_locality_def example_env_def dir_matches_def Let_def
        two_files_state_def init_state_def)
  have g4: "get_safe_path (example_env\<lparr>stat_errno := (\<lambda>p. Some EACCES)\<rparr>) (two_files_state\<lparr>plan := True\<rparr>) ''/tmp/allowed'' ''b''
      = (Inr ''/tmp/allowed/b'', two_files_state\<lparr>plan := True\<rparr>)"
    by (simp add: get_safe_path_def check_secure_locality_def example_env_def dir_matches_def Let_def
        two_files_state_def init_state_def)
  have s1: "stat example_env (two_files_state\<lparr>plan := True\<rparr>) ''/tmp/allowed/b'' = None"
    by (simp add: stat_def example_env_def two_files_state_def)
  have s2: "stat (example_env\<lparr>stat_errno := (\<lambda>p. Some EACCES)\<rparr>) (two_files_state\<lparr>plan := True\<rparr>) ''/tmp/allowed/b'' = Some EACCES"
    by (simp add: stat_def example_env_def two_files_state_def)
  have r1: "rename_errno example_env ''/tmp/allowed/a'' ''/tmp/allowed/b'' = None"
    by (simp add: example_env_def)
  have f1: "files (two_files_state\<lparr>plan := True\<rparr>) ''/tmp/allowed/a'' = Some ''AAA''"
    by (simp add: two_files_state_def)
  note t = frename_overwrite [OF g1 g2, of EACCES "''AAA''"]
  note u = frename_overwrite [OF g3 g4, of EACCES "''AAA''"]
  have a: "utl_file_frename example_env two_files_state (Some ''/tmp/allowed'') (Some ''a'')
      (Some ''/tmp/allowed'') (Some ''b'') (Some False) = (Inl WRITE_ERROR, two_files_state\<lparr>plan := True\<rparr>)"
    using t s1 by blast
  have b: "utl_file_frename example_env two_files_state (Some ''/tmp/allowed'') (Some ''a'')
      (Some ''/tmp/allowed'') (Some ''b'') (Some True) = (Inr (), (two_files_state\<lparr>plan := True\<rparr>)\<lparr>files :=
         ((files (two_files_state\<lparr>plan := True\<rparr>))(''/tmp/allowed/a'' := None))(''/tmp/allowed/b'' \<mapsto> ''AAA'')\<rparr>)"
    using t r1 f1 by blast
  have c: "utl_file_frename (example_env\<lparr>stat_errno := (\<lambda>p. Some EACCES)\<rparr>) two_files_state
      (Some ''/tmp/allowed'') (Some ''a'') (Some ''/tmp/allowed'') (Some ''b'') (Some False)
      = (Inl (IO_EXCEPTION EACCES), two_files_state\<lparr>plan := True\<rparr>)"
    using u s2 by blast
  show ?thesis by (simp add: a b c)
qed

subsection \<open>Opening: the full table\<close>

lemma find_slot_None: "(\<forall>s \<in> set ss. \<not> P s) \<Longrightarrow> find_slot P ss i = None"
  by (induction ss arbitrary: i) auto

lemma find_slot_Some:
  "find_slot P ss i = Some k \<Longrightarrow> i \<le> k \<and> k < i + length ss \<and> P (ss ! (k - i))
     \<and> (\<forall>j. i \<le> j \<and> j < k \<longrightarrow> \<not> P (ss ! (j - i)))"
proof (induction ss arbitrary: i)
  case Nil
  then show ?case by simp
next
  case (Cons s ss)
  show ?case
  proof (cases "P s")
    case True
    with Cons.prems show ?thesis by auto
  next
    case False
    with Cons.prems have f: "find_slot P ss (Suc i) = Some k" by simp
    from Cons.IH [OF f] have k: "Suc i \<le> k" "k < Suc i + length ss" "P (ss ! (k - Suc i))"
      and n: "\<forall>j. Suc i \<le> j \<and> j < k \<longrightarrow> \<not> P (ss ! (j - Suc i))" by auto
    have "P ((s # ss) ! (k - i))" using k by (simp add: nth_Cons')
    moreover have "\<not> P ((s # ss) ! (j - i))" if "i \<le> j" "j < k" for j
    proof (cases "j = i")
      case True
      with False show ?thesis by simp
    next
      case False
      with that n have "\<not> P (ss ! (j - Suc i))" by auto
      moreover have "(s # ss) ! (j - i) = ss ! (j - Suc i)" using False that by (simp add: nth_Cons')
      ultimately show ?thesis by simp
    qed
    ultimately show ?thesis using k by auto
  qed
qed

lemma get_descriptor_full:
  "\<forall>s \<in> set (take MAX_SLOTS (slots st)). slot_id s \<noteq> INVALID_SLOTID \<Longrightarrow>
     get_descriptor st p mls = (INVALID_SLOTID, st)"
  by (simp add: get_descriptor_def find_slot_None)

text \<open>
  Claim C2. When none of the \<open>MAX_SLOTS\<close> = 50 slots is free, a call of \<open>utl_file_fopen\<close>
  whose arguments pass the checks and whose \<open>fopen\<close> succeeds fails with
  \<open>ERRCODE_PROGRAM_LIMIT_EXCEEDED\<close>; in the state it leaves, the stream that \<open>fopen\<close>
  returned is closed, and the table, the counter and every other stream are as before.
\<close>

theorem fopen_table_full:
  assumes full: "\<forall>s \<in> set (take MAX_SLOTS (slots st)). slot_id s \<noteq> INVALID_SLOTID"
      and mls: "CHECK_LINESIZE mls"
      and om: "length om = 1" "fopen_mode (hd om) = Some mode"
      and path: "get_safe_path e st loc fname = (Inr fullname, st1)"
      and opened: "fopen e fullname mode = Inr (p, f)"
  shows "utl_file_fopen e st (Some loc) (Some fname) (Some om) (Some mls)
           = (Inl ERRCODE_PROGRAM_LIMIT_EXCEEDED, st1\<lparr>streams := (streams st1)(p := None)\<rparr>)
         \<and> slots st1 = slots st \<and> slotid st1 = slotid st \<and> streams st1 = streams st"
proof -
  have same: "slots st1 = slots st \<and> slotid st1 = slotid st \<and> streams st1 = streams st"
    using path
    by (auto simp: get_safe_path_def check_secure_locality_def Let_def split: if_splits)
  let ?st2 = "st1\<lparr>streams := (streams st1)(p \<mapsto> f)\<rparr>"
  have "\<forall>s \<in> set (take MAX_SLOTS (slots ?st2)). slot_id s \<noteq> INVALID_SLOTID"
    using full same by simp
  then have d: "get_descriptor ?st2 p mls = (INVALID_SLOTID, ?st2)"
    by (rule get_descriptor_full)
  have c: "fclose ?st2 p = Some (cl_errno f, st1\<lparr>streams := (streams st1)(p := None)\<rparr>)"
    by (simp add: fclose_def)
  have "open_file e st loc fname mode mls
      = (Inl ERRCODE_PROGRAM_LIMIT_EXCEEDED, st1\<lparr>streams := (streams st1)(p := None)\<rparr>)"
    using path opened d c by (simp add: open_file_def Let_def)
  moreover have "om \<noteq> []" using om by auto
  ultimately show ?thesis using om mls same by (simp add: utl_file_fopen_def)
qed

lemma full_state_full:
  "\<forall>s \<in> set (take MAX_SLOTS (slots full_state)). slot_id s \<noteq> INVALID_SLOTID"
proof -
  have "of_nat (Suc i) \<noteq> (0 :: 32 word)" if "i < 50" for i
    using that by (intro of_nat_neq_0) simp_all
  then show ?thesis
    by (auto simp: full_state_def init_state_def MAX_SLOTS_def INVALID_SLOTID_def)
qed

lemma full_state_path:
  "get_safe_path example_env full_state ''/tmp/allowed'' ''f''
     = (Inr ''/tmp/allowed/f'', full_state\<lparr>plan := True\<rparr>)"
  by (simp add: get_safe_path_def check_secure_locality_def example_env_def dir_matches_def
      Let_def full_state_def init_state_def)

text \<open>The theorem of C2 on the table with fifty open handles.\<close>

theorem fopen_table_full_witness:
  "utl_file_fopen example_env full_state (Some ''/tmp/allowed'') (Some ''f'') (Some ''w'') (Some 1024)
     = (Inl ERRCODE_PROGRAM_LIMIT_EXCEEDED,
        full_state\<lparr>plan := True, streams := (streams full_state)(100 := None)\<rparr>)
   \<and> streams full_state 100 = None"
proof -
  have o: "fopen example_env ''/tmp/allowed/f'' ''w'' = Inr (100, example_file)"
    by (simp add: example_env_def)
  have m: "length ''w'' = 1" "fopen_mode (hd ''w'') = Some ''w''"
    by (simp_all add: fopen_mode_def)
  have "CHECK_LINESIZE 1024" by (simp add: CHECK_LINESIZE_def MAX_LINESIZE_def)
  from fopen_table_full [OF full_state_full this m full_state_path o]
  show ?thesis by (simp add: full_state_def init_state_def MAX_SLOTS_def)
qed

subsection \<open>Closing\<close>

lemma fclose_Some:
  "fclose st p = Some (rc, st1) \<Longrightarrow>
     slots st1 = slots st \<and> slotid st1 = slotid st \<and> plan st1 = plan st \<and> files st1 = files st"
  by (auto simp: fclose_def split: option.splits)

lemma close_slot_Inr:
  assumes "close_slot st i = (Inr u, st1)"
  shows "slots st1 = (slots st)[i := (slots st ! i)\<lparr>slot_file := None, slot_id := INVALID_SLOTID\<rparr>]
         \<and> slotid st1 = slotid st \<and> plan st1 = plan st \<and> files st1 = files st"
proof (cases "slot_file (slots st ! i)")
  case None
  with assms show ?thesis by (auto simp: close_slot_def)
next
  case (Some p)
  show ?thesis
  proof (cases "fclose st p")
    case None
    with Some assms show ?thesis by (simp add: close_slot_def)
  next
    case (Some a)
    obtain rc st2 where a: "a = (rc, st2)" by (cases a)
    from fclose_Some [of st p rc st2] Some a
    have "slots st2 = slots st \<and> slotid st2 = slotid st \<and> plan st2 = plan st \<and> files st2 = files st"
      by simp
    with assms \<open>slot_file (slots st ! i) = Some p\<close> Some a show ?thesis
      by (cases rc) (auto simp: close_slot_def)
  qed
qed

lemma close_slot_Inl:
  assumes "close_slot st i = (Inl err, st1)"
  shows "slots st1 = slots st \<and> slotid st1 = slotid st \<and> plan st1 = plan st \<and> files st1 = files st
         \<and> err \<in> {INVALID_FILEHANDLE, WRITE_ERROR, UNDEFINED_BEHAVIOUR}"
proof (cases "slot_file (slots st ! i)")
  case None
  with assms show ?thesis by (auto simp: close_slot_def)
next
  case (Some p)
  show ?thesis
  proof (cases "fclose st p")
    case None
    with Some assms show ?thesis by (auto simp: close_slot_def)
  next
    case (Some a)
    obtain rc st2 where a: "a = (rc, st2)" by (cases a)
    from fclose_Some [of st p rc st2] Some a
    have "slots st2 = slots st \<and> slotid st2 = slotid st \<and> plan st2 = plan st \<and> files st2 = files st"
      by simp
    with assms \<open>slot_file (slots st ! i) = Some p\<close> Some a show ?thesis
      by (cases rc) (auto simp: close_slot_def split: if_splits)
  qed
qed

lemma fclose_all_loop_step:
  "a < b \<Longrightarrow> fclose_all_loop st [a..<b] =
     (if slot_id (slots st ! a) \<noteq> INVALID_SLOTID then
        (case close_slot st a of
           (Inl err, st1) \<Rightarrow> (Inl err, st1)
         | (Inr u, st1) \<Rightarrow> fclose_all_loop st1 [Suc a..<b])
      else fclose_all_loop st [Suc a..<b])"
  by (simp add: upt_conv_Cons)

lemma fclose_all_loop_Inl:
  "fclose_all_loop st [a..<b] = (Inl err, st') \<Longrightarrow>
     \<exists>k stk. a \<le> k \<and> k < b \<and> fclose_all_loop st [a..<k] = (Inr (), stk)
       \<and> slot_id (slots stk ! k) \<noteq> INVALID_SLOTID \<and> close_slot stk k = (Inl err, st')"
proof (induction "b - a" arbitrary: a st)
  case 0
  then show ?case by simp
next
  case (Suc n)
  then have ab: "a < b" and n: "n = b - Suc a" by auto
  show ?case
  proof (cases "slot_id (slots st ! a) \<noteq> INVALID_SLOTID")
    case False
    with Suc.prems ab have "fclose_all_loop st [Suc a..<b] = (Inl err, st')"
      by (simp add: fclose_all_loop_step)
    from Suc.hyps(1) [OF n this] obtain k stk where k: "Suc a \<le> k" "k < b"
      "fclose_all_loop st [Suc a..<k] = (Inr (), stk)"
      "slot_id (slots stk ! k) \<noteq> INVALID_SLOTID" "close_slot stk k = (Inl err, st')" by blast
    have "fclose_all_loop st [a..<k] = (Inr (), stk)"
      using k False by (simp add: fclose_all_loop_step)
    with k show ?thesis by (intro exI [of _ k] exI [of _ stk]) auto
  next
    case True
    obtain r st1 where c: "close_slot st a = (r, st1)" by (cases "close_slot st a")
    show ?thesis
    proof (cases r)
      case (Inl e1)
      with Suc.prems ab True c have "e1 = err" "st1 = st'"
        by (simp_all add: fclose_all_loop_step)
      with c Inl True ab show ?thesis
        by (intro exI [of _ a] exI [of _ st]) auto
    next
      case (Inr u)
      with Suc.prems ab True c have "fclose_all_loop st1 [Suc a..<b] = (Inl err, st')"
        by (simp add: fclose_all_loop_step)
      from Suc.hyps(1) [OF n this] obtain k stk where k: "Suc a \<le> k" "k < b"
        "fclose_all_loop st1 [Suc a..<k] = (Inr (), stk)"
        "slot_id (slots stk ! k) \<noteq> INVALID_SLOTID" "close_slot stk k = (Inl err, st')" by blast
      have "fclose_all_loop st [a..<k] = (Inr (), stk)"
        using k True c Inr by (simp add: fclose_all_loop_step)
      with k show ?thesis by (intro exI [of _ k] exI [of _ stk]) auto
    qed
  qed
qed

lemma fclose_all_loop_Inr:
  "fclose_all_loop st [a..<b] = (Inr u, st') \<Longrightarrow> b \<le> length (slots st) \<Longrightarrow>
     length (slots st') = length (slots st) \<and> slotid st' = slotid st
     \<and> plan st' = plan st \<and> files st' = files st
     \<and> (\<forall>i. i < a \<or> b \<le> i \<longrightarrow> slots st' ! i = slots st ! i)
     \<and> (\<forall>i. a \<le> i \<and> i < b \<longrightarrow> slot_id (slots st' ! i) = INVALID_SLOTID
           \<and> (slot_id (slots st ! i) \<noteq> INVALID_SLOTID \<longrightarrow> slot_file (slots st' ! i) = None))"
proof (induction "b - a" arbitrary: a st)
  case 0
  then show ?case by auto
next
  case (Suc n)
  then have ab: "a < b" and n: "n = b - Suc a" by auto
  show ?case
  proof (cases "slot_id (slots st ! a) \<noteq> INVALID_SLOTID")
    case False
    with Suc.prems ab have l: "fclose_all_loop st [Suc a..<b] = (Inr u, st')"
      by (simp add: fclose_all_loop_step)
    note ih = Suc.hyps(1) [OF n l Suc.prems(2)]
    have "slots st' ! a = slots st ! a" using ih by auto
    moreover have "a \<le> i \<and> i < b \<longrightarrow> i = a \<or> (Suc a \<le> i \<and> i < b)" for i by auto
    ultimately show ?thesis using ih False
      by (metis Suc_leD linorder_not_less not_less_eq_eq)
  next
    case True
    obtain r st1 where c: "close_slot st a = (r, st1)" by (cases "close_slot st a")
    show ?thesis
    proof (cases r)
      case (Inl e1)
      with Suc.prems ab True c show ?thesis by (simp add: fclose_all_loop_step)
    next
      case (Inr v)
      with Suc.prems ab True c have l: "fclose_all_loop st1 [Suc a..<b] = (Inr u, st')"
        by (simp add: fclose_all_loop_step)
      from close_slot_Inr c Inr
      have s1: "slots st1 = (slots st)[a := (slots st ! a)\<lparr>slot_file := None, slot_id := INVALID_SLOTID\<rparr>]"
        and o1: "slotid st1 = slotid st" "plan st1 = plan st" "files st1 = files st" by auto
      have len: "b \<le> length (slots st1)" using s1 Suc.prems(2) by simp
      note ih = Suc.hyps(1) [OF n l len]
      have a1: "slots st' ! a = (slots st ! a)\<lparr>slot_file := None, slot_id := INVALID_SLOTID\<rparr>"
        using ih s1 ab Suc.prems(2) by auto
      have out: "slots st' ! i = slots st ! i" if "i < a \<or> b \<le> i" for i
      proof -
        from that ab have "i \<noteq> a" by auto
        moreover from that have "i < Suc a \<or> b \<le> i" by auto
        then have "slots st' ! i = slots st1 ! i" using ih by blast
        ultimately show ?thesis using s1 by simp
      qed
      have inn: "slot_id (slots st' ! i) = INVALID_SLOTID
           \<and> (slot_id (slots st ! i) \<noteq> INVALID_SLOTID \<longrightarrow> slot_file (slots st' ! i) = None)"
        if "a \<le> i \<and> i < b" for i
      proof (cases "i = a")
        case True
        with a1 show ?thesis by simp
      next
        case False
        with that have "Suc a \<le> i \<and> i < b" by auto
        moreover have "slots st1 ! i = slots st ! i" using s1 False by simp
        ultimately show ?thesis using ih by metis
      qed
      have "length (slots st') = length (slots st)" using ih s1 by simp
      moreover have "slotid st' = slotid st" "plan st' = plan st" "files st' = files st"
        using ih o1 by simp_all
      ultimately show ?thesis using out inn by blast
    qed
  qed
qed

lemma close_slot_Inl_errno:
  assumes "close_slot st i = (Inl err, st1)"
  shows "err = UNDEFINED_BEHAVIOUR
         \<or> (\<exists>p f en. slot_file (slots st ! i) = Some p \<and> streams st p = Some f
               \<and> cl_errno f = Some en \<and> streams st1 p = None
               \<and> err = (if en = EBADF then INVALID_FILEHANDLE else WRITE_ERROR))"
proof (cases "slot_file (slots st ! i)")
  case None
  with assms show ?thesis by (auto simp: close_slot_def)
next
  case (Some p)
  show ?thesis
  proof (cases "streams st p")
    case None
    with Some assms show ?thesis by (auto simp: close_slot_def fclose_def)
  next
    case (Some f)
    with \<open>slot_file (slots st ! i) = Some p\<close> assms show ?thesis
      by (cases "cl_errno f") (auto simp: close_slot_def fclose_def)
  qed
qed









lemmas fclose_all_eval = utl_file_fclose_all_def MAX_SLOTS_def upt_conv_Cons two_open_state_def
  close_slot_def fclose_def INVALID_SLOTID_def empty_slot_def example_file_def


subsection \<open>What a failed call leaves behind\<close>

lemma next_slotid_nonzero:
  "(if slotid1 = INVALID_SLOTID then slotid1 + 1 else slotid1) \<noteq> INVALID_SLOTID"
  by (simp add: INVALID_SLOTID_def)

lemma get_descriptor_cases:
  assumes "get_descriptor st p mls = (d, st1)"
  shows "(d = INVALID_SLOTID \<and> st1 = st) \<or> d \<noteq> INVALID_SLOTID"
proof (cases "find_slot (\<lambda>s. slot_id s = INVALID_SLOTID) (take MAX_SLOTS (slots st)) 0")
  case None
  with assms show ?thesis by (simp add: get_descriptor_def)
next
  case (Some i)
  with assms have "d = (if slotid st + 1 = INVALID_SLOTID then slotid st + 1 + 1 else slotid st + 1)"
    by (auto simp: get_descriptor_def Let_def)
  with next_slotid_nonzero [of "slotid st + 1"] show ?thesis by simp
qed

lemma check_secure_locality_table:
  "check_secure_locality e st path = (r, st1) \<Longrightarrow>
     slots st1 = slots st \<and> slotid st1 = slotid st \<and> streams st1 = streams st \<and> files st1 = files st"
  by (auto simp: check_secure_locality_def Let_def split: if_splits)

lemma get_safe_path_table:
  assumes "get_safe_path e st loc fname = (r, st1)"
  shows "slots st1 = slots st \<and> slotid st1 = slotid st \<and> streams st1 = streams st \<and> files st1 = files st"
proof (cases "loc = [] \<or> fname = []")
  case True
  with assms show ?thesis by (auto simp: get_safe_path_def split: if_splits)
next
  case False
  obtain r2 st2 where c: "check_secure_locality e st (canonicalize_path e (loc @ ''/'' @ fname)) = (r2, st2)"
    by (cases "check_secure_locality e st (canonicalize_path e (loc @ ''/'' @ fname))")
  with assms False have "st1 = st2"
    by (cases r2) (auto simp: get_safe_path_def Let_def)
  with check_secure_locality_table [OF c] show ?thesis by simp
qed

lemma open_file_failed:
  assumes "open_file e st loc fname mode mls = (Inl err, st')"
  shows "slots st' = slots st \<and> slotid st' = slotid st"
proof -
  obtain r st1 where g: "get_safe_path e st loc fname = (r, st1)"
    by (cases "get_safe_path e st loc fname")
  note t = get_safe_path_table [OF g]
  show ?thesis
  proof (cases r)
    case (Inl e1)
    with assms g t show ?thesis by (simp add: open_file_def)
  next
    case (Inr fullname)
    show ?thesis
    proof (cases "fopen e fullname mode")
      case (Inl en)
      with assms g t Inr show ?thesis by (simp add: open_file_def)
    next
      case (Inr pf)
      obtain p f where pf: "pf = (p, f)" by (cases pf)
      let ?st2 = "st1\<lparr>streams := (streams st1)(p \<mapsto> f)\<rparr>"
      obtain d st3 where gd: "get_descriptor ?st2 p mls = (d, st3)"
        by (cases "get_descriptor ?st2 p mls")
      from get_descriptor_cases [OF gd] show ?thesis
      proof
        assume "d = INVALID_SLOTID \<and> st3 = ?st2"
        with assms g \<open>r = Inr fullname\<close> Inr pf gd t show ?thesis
          by (auto simp: open_file_def Let_def fclose_def)
      next
        assume "d \<noteq> INVALID_SLOTID"
        with assms g \<open>r = Inr fullname\<close> Inr pf gd show ?thesis
          by (simp add: open_file_def Let_def)
      qed
    qed
  qed
qed

lemma utl_file_fopen_failed:
  assumes "utl_file_fopen e st location filename open_mode max_linesize = (Inl err, st')"
  shows "slots st' = slots st \<and> slotid st' = slotid st"
  using assms open_file_failed
  by (auto simp: utl_file_fopen_def split: option.splits if_splits)

lemma read_stream_table:
  "read_stream e st fp mls = (r, st') \<Longrightarrow> slots st' = slots st \<and> slotid st' = slotid st"
  by (auto simp: read_stream_def split: option.splits prod.splits)

lemma utl_file_get_line_table:
  assumes "utl_file_get_line e st file len = (r, st')"
  shows "slots st' = slots st \<and> slotid st' = slotid st"
  using assms read_stream_table
  by (auto simp: utl_file_get_line_def split: option.splits sum.splits prod.splits if_splits)

lemma utl_file_get_nextline_table:
  assumes "utl_file_get_nextline e st file = (r, st')"
  shows "slots st' = slots st \<and> slotid st' = slotid st"
  using assms read_stream_table
  by (auto simp: utl_file_get_nextline_def split: option.splits sum.splits prod.splits if_splits)

lemma utl_file_putf_table:
  assumes "utl_file_putf st file format args = (r, st')"
  shows "slots st' = slots st \<and> slotid st' = slotid st"
  using assms
  by (auto simp: utl_file_putf_def split: option.splits sum.splits prod.splits)

lemma rename_file_table:
  "rename_file e st s d = (r, st') \<Longrightarrow> slots st' = slots st \<and> slotid st' = slotid st"
  by (auto simp: rename_file_def rename_def split: option.splits prod.splits)

lemma utl_file_frename_table:
  assumes "utl_file_frename e st sl sf dl df ov = (r, st')"
  shows "slots st' = slots st \<and> slotid st' = slotid st"
proof (cases "\<exists>a b c d. sl = Some a \<and> sf = Some b \<and> dl = Some c \<and> df = Some d")
  case False
  with assms show ?thesis
    by (auto simp: utl_file_frename_def split: option.splits)
next
  case True
  then obtain a b c d where args: "sl = Some a" "sf = Some b" "dl = Some c" "df = Some d" by blast
  obtain r1 st1 where g1: "get_safe_path e st a b = (r1, st1)" by (cases "get_safe_path e st a b")
  note t1 = get_safe_path_table [OF g1]
  show ?thesis
  proof (cases r1)
    case (Inl e1)
    with assms args g1 t1 show ?thesis by (simp add: utl_file_frename_def)
  next
    case (Inr srcpath)
    obtain r2 st2 where g2: "get_safe_path e st1 c d = (r2, st2)" by (cases "get_safe_path e st1 c d")
    note t2 = get_safe_path_table [OF g2]
    show ?thesis
    proof (cases r2)
      case (Inl e2)
      with assms args g1 g2 t1 t2 Inr show ?thesis by (simp add: utl_file_frename_def)
    next
      case (Inr dstpath)
      obtain r3 st3 where rn: "rename_file e st2 srcpath dstpath = (r3, st3)"
        by (cases "rename_file e st2 srcpath dstpath")
      note t3 = rename_file_table [OF rn]
      from assms args g1 g2 \<open>r1 = Inr srcpath\<close> Inr rn
      have "st' = st2 \<or> st' = st3"
        by (auto simp: utl_file_frename_def split: if_splits option.splits)
      with t1 t2 t3 show ?thesis by auto
    qed
  qed
qed

lemma utl_file_fclose_failed:
  assumes "utl_file_fclose st d = (Inl err, st')"
  shows "slots st' = slots st \<and> slotid st' = slotid st"
  using assms close_slot_Inl
  by (auto simp: utl_file_fclose_def split: option.splits)

lemma same_table_get_stream: "same_table st st' \<Longrightarrow> get_stream st' d = get_stream st d"
  by (simp add: same_table_def get_stream_def split: option.splits)

lemma utl_file_fclose_all_failed:
  assumes "utl_file_fclose_all st = (Inl err, st')" and "length (slots st) = MAX_SLOTS"
  shows "slotid st' = slotid st
         \<and> (\<exists>k<MAX_SLOTS. (\<forall>i<k. slot_id (slots st' ! i) = INVALID_SLOTID)
               \<and> (\<forall>i. k \<le> i \<longrightarrow> slots st' ! i = slots st ! i))"
proof -
  from assms(1) fclose_all_loop_Inl [of st 0 MAX_SLOTS err st']
  obtain k stk where k: "k < MAX_SLOTS" "fclose_all_loop st [0..<k] = (Inr (), stk)"
    "close_slot stk k = (Inl err, st')" by (auto simp: utl_file_fclose_all_def)
  from fclose_all_loop_Inr [OF k(2)] k(1) assms(2)
  have pre: "slotid stk = slotid st" "\<forall>i. k \<le> i \<longrightarrow> slots stk ! i = slots st ! i"
    "\<forall>i. i < k \<longrightarrow> slot_id (slots stk ! i) = INVALID_SLOTID" by auto
  from close_slot_Inl [OF k(3)] have same: "slots st' = slots stk" "slotid st' = slotid stk"
    by simp_all
  have "(\<forall>i<k. slot_id (slots st' ! i) = INVALID_SLOTID)
        \<and> (\<forall>i. k \<le> i \<longrightarrow> slots st' ! i = slots st ! i)"
    using pre same by simp
  with k(1) pre(1) same(2) show ?thesis by auto
qed

text \<open>
  Claim C7 at a close that fails. On the table with the handles 1 and 2, where the
  \<open>fclose\<close> of the stream of handle 1 fails with an \<open>errno\<close> other than \<open>EBADF\<close>,
  \<open>utl_file_fclose\<close> of handle 1 raises \<open>WRITE_ERROR\<close> before it clears the slot: the
  slot keeps its id and the address of the stream that \<open>fclose\<close> has released. Handle
  1 still resolves, to that address, and every later call on it (a read, a write, a
  second close, \<open>utl_file_fclose_all\<close>) reaches the C library with a stream that is no
  longer open. \<open>utl_file_fclose_all\<close> on the same table fails at that slot in the same
  way and leaves the same state.
\<close>

theorem failed_fclose_dead_stream:
  "fst (utl_file_fclose (two_open_state (Some (EOTHER 5)) None) 1) = Inl WRITE_ERROR
   \<and> slots (snd (utl_file_fclose (two_open_state (Some (EOTHER 5)) None) 1)) ! 0
       = \<lparr>slot_file = Some 100, slot_max_linesize = 1024, slot_id = 1\<rparr>
   \<and> streams (snd (utl_file_fclose (two_open_state (Some (EOTHER 5)) None) 1)) 100 = None
   \<and> get_stream (snd (utl_file_fclose (two_open_state (Some (EOTHER 5)) None) 1)) 1
       = Inr (Some 100, 1024)
   \<and> fst (utl_file_get_nextline example_env
           (snd (utl_file_fclose (two_open_state (Some (EOTHER 5)) None) 1)) (Some 1))
       = Inl UNDEFINED_BEHAVIOUR
   \<and> fst (utl_file_putf (snd (utl_file_fclose (two_open_state (Some (EOTHER 5)) None) 1))
           (Some 1) (Some ''x'') [])
       = Inl UNDEFINED_BEHAVIOUR
   \<and> fst (utl_file_fclose (snd (utl_file_fclose (two_open_state (Some (EOTHER 5)) None) 1)) 1)
       = Inl UNDEFINED_BEHAVIOUR
   \<and> fst (utl_file_fclose_all (snd (utl_file_fclose (two_open_state (Some (EOTHER 5)) None) 1)))
       = Inl UNDEFINED_BEHAVIOUR
   \<and> utl_file_fclose_all (two_open_state (Some (EOTHER 5)) None)
       = utl_file_fclose (two_open_state (Some (EOTHER 5)) None) 1"
proof -
  define st' where "st' = (two_open_state (Some (EOTHER 5)) None)\<lparr>streams := [101 \<mapsto> example_file]\<rparr>"
  have c: "utl_file_fclose (two_open_state (Some (EOTHER 5)) None) 1 = (Inl WRITE_ERROR, st')"
    by (simp add: utl_file_fclose_def two_open_state_def MAX_SLOTS_def close_slot_def fclose_def
        st'_def example_file_def fun_upd_twist)
  have s0: "slots st' ! 0 = \<lparr>slot_file = Some 100, slot_max_linesize = 1024, slot_id = 1\<rparr>"
    by (simp add: st'_def two_open_state_def)
  have s1: "streams st' 100 = None" by (simp add: st'_def)
  have f: "find_slot (\<lambda>s. slot_id s = 1) (take MAX_SLOTS (slots st')) 0 = Some 0"
    by (simp add: st'_def two_open_state_def MAX_SLOTS_def)
  have g: "get_stream st' 1 = Inr (Some 100, 1024)"
    by (simp add: get_stream_def f s0 INVALID_SLOTID_def)
  have n: "fst (utl_file_get_nextline example_env st' (Some 1)) = Inl UNDEFINED_BEHAVIOUR"
    by (simp add: utl_file_get_nextline_def g read_stream_def s1)
  have p: "fst (utl_file_putf st' (Some 1) (Some ''x'') []) = Inl UNDEFINED_BEHAVIOUR"
    by (simp add: utl_file_putf_def g s1)
  have cl: "close_slot st' 0 = (Inl UNDEFINED_BEHAVIOUR, st')"
    by (simp add: close_slot_def s0 fclose_def s1)
  have c2: "fst (utl_file_fclose st' 1) = Inl UNDEFINED_BEHAVIOUR"
    by (simp add: utl_file_fclose_def f cl)
  have "fclose_all_loop st' [0..<MAX_SLOTS] = (Inl UNDEFINED_BEHAVIOUR, st')"
    using fclose_all_loop_step [of 0 MAX_SLOTS st'] cl s0
    by (simp add: MAX_SLOTS_def INVALID_SLOTID_def)
  then have ca: "fst (utl_file_fclose_all st') = Inl UNDEFINED_BEHAVIOUR"
    by (simp add: utl_file_fclose_all_def)
  have a: "utl_file_fclose_all (two_open_state (Some (EOTHER 5)) None) = (Inl WRITE_ERROR, st')"
    by (simp add: fclose_all_eval fun_upd_twist st'_def)
  show ?thesis unfolding c a using s0 s1 g n p c2 ca by simp
qed

subsection \<open>The ids of the handle table\<close>

lemma get_descriptor_Some:
  assumes "get_descriptor st p mls = (d, st')" and "d \<noteq> INVALID_SLOTID"
  shows "\<exists>i<MAX_SLOTS. i < length (slots st)
           \<and> d = (if slotid st + 1 = INVALID_SLOTID then slotid st + 1 + 1 else slotid st + 1)
           \<and> slots st' = (slots st)[i := \<lparr>slot_file = Some p, slot_max_linesize = mls, slot_id = d\<rparr>]
           \<and> slotid st' = d"
proof (cases "find_slot (\<lambda>s. slot_id s = INVALID_SLOTID) (take MAX_SLOTS (slots st)) 0")
  case None
  with assms show ?thesis by (simp add: get_descriptor_def)
next
  case (Some i)
  from find_slot_Some [OF Some] have "i < MAX_SLOTS" "i < length (slots st)" by auto
  with assms Some show ?thesis
    by (intro exI [of _ i]) (auto simp: get_descriptor_def Let_def)
qed

lemma open_file_returns:
  assumes o: "open_file e st loc fname mode mls = (Inr d, st')"
  shows "d \<noteq> INVALID_SLOTID \<and> slotid st' = d"
proof -
  obtain r1 st1 where g: "get_safe_path e st loc fname = (r1, st1)"
    by (cases "get_safe_path e st loc fname")
  from o g obtain fullname where r1: "r1 = Inr fullname"
    by (cases r1) (auto simp: open_file_def)
  from o g r1 obtain p f where f: "fopen e fullname mode = Inr (p, f)"
    by (cases "fopen e fullname mode") (auto simp: open_file_def)
  let ?st2 = "st1\<lparr>streams := (streams st1)(p \<mapsto> f)\<rparr>"
  obtain d2 st3 where gd: "get_descriptor ?st2 p mls = (d2, st3)"
    by (cases "get_descriptor ?st2 p mls")
  from o g r1 f gd have e: "d2 \<noteq> INVALID_SLOTID \<and> d2 = d \<and> st3 = st'"
    by (auto simp: open_file_def Let_def split: if_splits option.splits)
  with get_descriptor_Some [OF gd] show ?thesis by auto
qed

lemma utl_file_fopen_table:
  assumes "utl_file_fopen e st location filename open_mode max_linesize = (r, st')"
  shows "same_table st st'
         \<or> (\<exists>st2 p mls d. slots st2 = slots st \<and> slotid st2 = slotid st
               \<and> get_descriptor st2 p mls = (d, st') \<and> d \<noteq> INVALID_SLOTID \<and> r = Inr d)"
proof (cases r)
  case (Inl err)
  with assms utl_file_fopen_failed [of e st location filename open_mode max_linesize err st']
  show ?thesis by (simp add: same_table_def)
next
  case (Inr d)
  with assms obtain loc fname mode mls where
    o: "open_file e st loc fname mode mls = (Inr d, st')"
    by (auto simp: utl_file_fopen_def split: option.splits if_splits)
  obtain r1 st1 where g: "get_safe_path e st loc fname = (r1, st1)"
    by (cases "get_safe_path e st loc fname")
  note t = get_safe_path_table [OF g]
  from o g obtain fullname where r1: "r1 = Inr fullname"
    by (cases r1) (auto simp: open_file_def)
  from o g r1 obtain p f where f: "fopen e fullname mode = Inr (p, f)"
    by (cases "fopen e fullname mode") (auto simp: open_file_def)
  let ?st2 = "st1\<lparr>streams := (streams st1)(p \<mapsto> f)\<rparr>"
  obtain d2 st3 where gd: "get_descriptor ?st2 p mls = (d2, st3)"
    by (cases "get_descriptor ?st2 p mls")
  from o g r1 f gd have "d2 \<noteq> INVALID_SLOTID \<and> d2 = d \<and> st3 = st'"
    by (auto simp: open_file_def Let_def split: if_splits option.splits)
  with gd t Inr have "slots ?st2 = slots st \<and> slotid ?st2 = slotid st
      \<and> get_descriptor ?st2 p mls = (d, st') \<and> d \<noteq> INVALID_SLOTID \<and> r = Inr d" by auto
  then show ?thesis by blast
qed

lemma table_inv_init: "table_inv 0 init_state"
  by (simp add: table_inv_def init_state_def ids_unique_def empty_slot_def INVALID_SLOTID_def)

lemma table_inv_same: "table_inv n st \<Longrightarrow> same_table st st' \<Longrightarrow> n \<le> m \<Longrightarrow> table_inv m st'"
  by (auto simp: table_inv_def same_table_def ids_unique_def)

lemma table_inv_cleared:
  assumes inv: "table_inv n st"
      and len: "length (slots st') = length (slots st)" and sid: "slotid st' = slotid st"
      and cl: "\<forall>i<MAX_SLOTS. slot_id (slots st' ! i) = INVALID_SLOTID
                 \<or> slots st' ! i = slots st ! i"
  shows "table_inv n st'"
proof -
  have "unat (slot_id (slots st' ! i)) \<le> unat (slotid st')" if "i < MAX_SLOTS" for i
    using inv cl sid that by (auto simp: table_inv_def INVALID_SLOTID_def)
  moreover have "ids_unique st'"
    unfolding ids_unique_def
  proof (intro allI impI)
    fix i j
    assume i: "i < MAX_SLOTS" and j: "j < MAX_SLOTS"
      and eq: "slot_id (slots st' ! i) \<noteq> INVALID_SLOTID
               \<and> slot_id (slots st' ! i) = slot_id (slots st' ! j)"
    from eq i j cl have "slots st' ! i = slots st ! i" "slots st' ! j = slots st ! j" by auto
    with eq i j inv show "i = j" by (auto simp: table_inv_def ids_unique_def)
  qed
  ultimately show ?thesis using inv len sid by (simp add: table_inv_def)
qed

lemma table_inv_get_descriptor:
  assumes inv: "table_inv n st" and n: "Suc n < 2 ^ 32"
      and gd: "get_descriptor st p mls = (d, st')" and d: "d \<noteq> INVALID_SLOTID"
  shows "table_inv (Suc n) st'"
proof -
  from get_descriptor_Some [OF gd d] obtain k where k: "k < MAX_SLOTS" "k < length (slots st)"
    "d = (if slotid st + 1 = INVALID_SLOTID then slotid st + 1 + 1 else slotid st + 1)"
    "slots st' = (slots st)[k := \<lparr>slot_file = Some p, slot_max_linesize = mls, slot_id = d\<rparr>]"
    "slotid st' = d" by blast
  from inv have bound: "unat (slotid st) \<le> n" by (simp add: table_inv_def)
  with n have u: "unat (slotid st + 1) = unat (slotid st) + 1"
    by (simp add: unat_plus_if')
  then have "slotid st + 1 \<noteq> 0" by (metis Zero_not_Suc Suc_eq_plus1 unat_0)
  with k(3) have dd: "d = slotid st + 1" by (simp add: INVALID_SLOTID_def)
  have ud: "unat d = unat (slotid st) + 1" using dd u by simp
  have old: "unat (slot_id (slots st ! i)) < unat d" if "i < MAX_SLOTS" for i
    using inv that ud by (auto simp: table_inv_def less_Suc_eq_le)
  have new: "slots st' ! i = (if i = k then \<lparr>slot_file = Some p, slot_max_linesize = mls, slot_id = d\<rparr>
               else slots st ! i)" if "i < MAX_SLOTS" for i
    using k that inv by (simp add: table_inv_def nth_list_update)
  have "unat (slot_id (slots st' ! i)) \<le> unat (slotid st')" if "i < MAX_SLOTS" for i
    using new [OF that] old [OF that] k(5) by (auto simp: less_imp_le)
  moreover have "ids_unique st'"
    unfolding ids_unique_def
  proof (intro allI impI)
    fix i j
    assume i: "i < MAX_SLOTS" and j: "j < MAX_SLOTS"
      and eq: "slot_id (slots st' ! i) \<noteq> INVALID_SLOTID
               \<and> slot_id (slots st' ! i) = slot_id (slots st' ! j)"
    show "i = j"
    proof (cases "i = k \<or> j = k")
      case True
      with eq new [OF i] new [OF j] old [OF i] old [OF j] show ?thesis
        by (auto split: if_splits)
    next
      case False
      with eq new [OF i] new [OF j] i j inv show ?thesis
        by (auto simp: table_inv_def ids_unique_def)
    qed
  qed
  ultimately show ?thesis using inv k ud bound by (simp add: table_inv_def)
qed

lemma table_inv_fopen:
  assumes inv: "table_inv n st" and n: "Suc n < 2 ^ 32"
  shows "table_inv (Suc n) (snd (utl_file_fopen e st location filename open_mode max_linesize))"
proof -
  obtain r st' where res: "utl_file_fopen e st location filename open_mode max_linesize = (r, st')"
    by (cases "utl_file_fopen e st location filename open_mode max_linesize")
  from utl_file_fopen_table [OF res] show ?thesis
  proof
    assume "same_table st st'"
    with inv res show ?thesis using table_inv_same [of n st st' "Suc n"] by simp
  next
    assume "\<exists>st2 p mls d. slots st2 = slots st \<and> slotid st2 = slotid st
               \<and> get_descriptor st2 p mls = (d, st') \<and> d \<noteq> INVALID_SLOTID \<and> r = Inr d"
    then obtain st2 p mls d where s: "slots st2 = slots st" "slotid st2 = slotid st"
      "get_descriptor st2 p mls = (d, st')" "d \<noteq> INVALID_SLOTID" by blast
    from inv s(1,2) have "table_inv n st2" by (auto simp: table_inv_def ids_unique_def)
    from table_inv_get_descriptor [OF this n s(3,4)] res show ?thesis by simp
  qed
qed

lemma table_inv_fclose:
  assumes inv: "table_inv n st"
  shows "table_inv n (snd (utl_file_fclose st d))"
proof -
  obtain r st' where res: "utl_file_fclose st d = (r, st')" by (cases "utl_file_fclose st d")
  show ?thesis
  proof (cases r)
    case (Inl err)
    with res utl_file_fclose_failed [of st d err st'] inv show ?thesis
      using table_inv_same [of n st st' n] by (simp add: same_table_def)
  next
    case (Inr u)
    with res obtain i where c: "close_slot st i = (Inr u, st')"
      by (auto simp: utl_file_fclose_def split: option.splits)
    from close_slot_Inr [OF c]
    have s: "slots st' = (slots st)[i := (slots st ! i)\<lparr>slot_file := None, slot_id := INVALID_SLOTID\<rparr>]"
      "slotid st' = slotid st" by simp_all
    have "slot_id (slots st' ! j) = INVALID_SLOTID \<or> slots st' ! j = slots st ! j"
      if "j < MAX_SLOTS" for j
      using s(1) that inv by (cases "j = i") (auto simp: table_inv_def)
    with table_inv_cleared [OF inv _ s(2)] s(1) res show ?thesis by simp
  qed
qed

lemma table_inv_fclose_all:
  assumes inv: "table_inv n st"
  shows "table_inv n (snd (utl_file_fclose_all st))"
proof -
  from inv have len: "length (slots st) = MAX_SLOTS" by (simp add: table_inv_def)
  obtain r st' where res: "fclose_all_loop st [0..<MAX_SLOTS] = (r, st')"
    by (cases "fclose_all_loop st [0..<MAX_SLOTS]")
  have "length (slots st') = length (slots st) \<and> slotid st' = slotid st
        \<and> (\<forall>i<MAX_SLOTS. slot_id (slots st' ! i) = INVALID_SLOTID \<or> slots st' ! i = slots st ! i)"
  proof (cases r)
    case (Inr u)
    with res fclose_all_loop_Inr [of st 0 MAX_SLOTS u st'] len show ?thesis by simp
  next
    case (Inl err)
    with res fclose_all_loop_Inl [of st 0 MAX_SLOTS err st']
    obtain k stk where k: "k < MAX_SLOTS" "fclose_all_loop st [0..<k] = (Inr (), stk)"
      "close_slot stk k = (Inl err, st')" by auto
    from fclose_all_loop_Inr [OF k(2)] k(1) len
    have pre: "length (slots stk) = length (slots st)" "slotid stk = slotid st"
      "\<forall>i. k \<le> i \<longrightarrow> slots stk ! i = slots st ! i"
      "\<forall>i. i < k \<longrightarrow> slot_id (slots stk ! i) = INVALID_SLOTID" by auto
    from close_slot_Inl [OF k(3)] have same: "slots st' = slots stk" "slotid st' = slotid stk"
      by simp_all
    have "slot_id (slots st' ! i) = INVALID_SLOTID \<or> slots st' ! i = slots st ! i" for i
      using pre(3,4) same(1) by (cases "i < k") auto
    with pre same show ?thesis by simp
  qed
  with table_inv_cleared [OF inv, of st'] res show ?thesis
    by (simp add: utl_file_fclose_all_def)
qed

lemma reach_table_inv: "reach n st \<Longrightarrow> n < 2 ^ 32 \<Longrightarrow> table_inv n st"
proof (induction rule: reach.induct)
  case reach_init
  show ?case by (rule table_inv_init)
next
  case (reach_fopen n st e location filename open_mode max_linesize)
  then show ?case using table_inv_fopen by simp
next
  case (reach_fclose n st d)
  then show ?case using table_inv_fclose by simp
next
  case (reach_fclose_all n st)
  then show ?case using table_inv_fclose_all by simp
next
  case (reach_get_line n st e fh len)
  with utl_file_get_line_table [of e st fh len] show ?case
    using table_inv_same [of n st _ n]
    by (cases "utl_file_get_line e st fh len") (simp add: same_table_def)
next
  case (reach_get_nextline n st e fh)
  with utl_file_get_nextline_table [of e st fh] show ?case
    using table_inv_same [of n st _ n]
    by (cases "utl_file_get_nextline e st fh") (simp add: same_table_def)
next
  case (reach_putf n st fh format args)
  with utl_file_putf_table [of st fh "format" args] show ?case
    using table_inv_same [of n st _ n]
    by (cases "utl_file_putf st fh format args") (simp add: same_table_def)
next
  case (reach_frename n st e sl sf dl df ov)
  with utl_file_frename_table [of e st sl sf dl df ov] show ?case
    using table_inv_same [of n st _ n]
    by (cases "utl_file_frename e st sl sf dl df ov") (simp add: same_table_def)
qed

lemma next_id_skip:
  "(if c + 1 = INVALID_SLOTID then c + 1 + 1 else c + 1) = next_id c"
proof (cases "c = - 1")
  case True
  then show ?thesis by (simp add: next_id_def INVALID_SLOTID_def)
next
  case False
  then have "c + 1 \<noteq> 0" by (simp add: eq_neg_iff_add_eq_0)
  with False show ?thesis by (simp add: next_id_def INVALID_SLOTID_def)
qed

lemma next_id_nonzero: "next_id c \<noteq> INVALID_SLOTID"
  using next_slotid_nonzero [of "c + 1"] unfolding next_id_skip .

lemma get_descriptor_free:
  assumes "find_slot (\<lambda>s. slot_id s = INVALID_SLOTID) (take MAX_SLOTS (slots st)) 0 = Some i"
  shows "get_descriptor st p mls =
           (next_id (slotid st),
            st\<lparr>slots := (slots st)[i := \<lparr>slot_file = Some p, slot_max_linesize = mls,
                   slot_id = next_id (slotid st)\<rparr>],
               slotid := next_id (slotid st)\<rparr>)"
  using assms by (simp add: get_descriptor_def Let_def next_id_skip)

lemma utl_file_fopen_free:
  assumes fs: "find_slot (\<lambda>s. slot_id s = INVALID_SLOTID) (take MAX_SLOTS (slots st)) 0 = Some i"
      and ls: "CHECK_LINESIZE mls" and md: "fopen_mode c1 = Some mode"
      and gs: "get_safe_path e st loc fname = (Inr fullname, st1)"
      and fo: "fopen e fullname mode = Inr (p, f)"
  shows "fst (utl_file_fopen e st (Some loc) (Some fname) (Some [c1]) (Some mls))
           = Inr (next_id (slotid st))"
proof -
  let ?st2 = "st1\<lparr>streams := (streams st1)(p \<mapsto> f)\<rparr>"
  from get_safe_path_table [OF gs] have t: "slots ?st2 = slots st" "slotid ?st2 = slotid st"
    by simp_all
  from fs t have "find_slot (\<lambda>s. slot_id s = INVALID_SLOTID) (take MAX_SLOTS (slots ?st2)) 0 = Some i"
    by simp
  from get_descriptor_free [OF this, of p mls] t
  obtain st3 where gd: "get_descriptor ?st2 p mls = (next_id (slotid st), st3)" by simp
  have "open_file e st loc fname mode mls = (Inr (next_id (slotid st)), st3)"
    using gs fo gd next_id_nonzero [of "slotid st"] by (simp add: open_file_def Let_def)
  with ls md show ?thesis by (simp add: utl_file_fopen_def)
qed

lemma utl_file_fopen_returns:
  assumes a: "fst (utl_file_fopen e st location filename open_mode max_linesize) = Inr d"
  shows "d \<noteq> INVALID_SLOTID \<and> d = next_id (slotid st)
         \<and> slotid (snd (utl_file_fopen e st location filename open_mode max_linesize)) = d
         \<and> (\<exists>j<MAX_SLOTS. slot_id (slots (snd (utl_file_fopen e st location filename open_mode
               max_linesize)) ! j) = d)"
proof -
  obtain r st' where res: "utl_file_fopen e st location filename open_mode max_linesize = (r, st')"
    by (cases "utl_file_fopen e st location filename open_mode max_linesize")
  with a have r: "r = Inr d" by simp
  with res obtain loc fname mode mls where
    o: "open_file e st loc fname mode mls = (Inr d, st')"
    by (auto simp: utl_file_fopen_def split: option.splits if_splits)
  obtain r1 st1 where g: "get_safe_path e st loc fname = (r1, st1)"
    by (cases "get_safe_path e st loc fname")
  note t = get_safe_path_table [OF g]
  from o g obtain fullname where r1: "r1 = Inr fullname"
    by (cases r1) (auto simp: open_file_def)
  from o g r1 obtain p f where f: "fopen e fullname mode = Inr (p, f)"
    by (cases "fopen e fullname mode") (auto simp: open_file_def)
  let ?st2 = "st1\<lparr>streams := (streams st1)(p \<mapsto> f)\<rparr>"
  obtain d2 st3 where gd0: "get_descriptor ?st2 p mls = (d2, st3)"
    by (cases "get_descriptor ?st2 p mls")
  from o g r1 f gd0 have e: "d2 \<noteq> INVALID_SLOTID" "d2 = d" "st3 = st'"
    by (auto simp: open_file_def Let_def split: if_splits option.splits)
  from gd0 e(2,3) have gd: "get_descriptor ?st2 p mls = (d, st')" by simp
  from e(1,2) have nz: "d \<noteq> INVALID_SLOTID" by simp
  from t have s2: "slots ?st2 = slots st" "slotid ?st2 = slotid st" by simp_all
  from get_descriptor_Some [OF gd nz] obtain j where j: "j < MAX_SLOTS" "j < length (slots ?st2)"
    "d = (if slotid ?st2 + 1 = INVALID_SLOTID then slotid ?st2 + 1 + 1 else slotid ?st2 + 1)"
    "slots st' = (slots ?st2)[j := \<lparr>slot_file = Some p, slot_max_linesize = mls, slot_id = d\<rparr>]"
    "slotid st' = d" by blast
  from j(3) have d: "d = next_id (slotid st)" unfolding s2 by (simp only: next_id_skip)
  from j(2,4) have "slot_id (slots st' ! j) = d" by simp
  with j(1) have "\<exists>j<MAX_SLOTS. slot_id (slots st' ! j) = d" by blast
  with nz d j(5) res show ?thesis by simp
qed

text \<open>
  Claim C8, as amended. The id after a counter value is never \<open>INVALID_SLOTID\<close>: it is
  the next value, and 1 after \<open>2^32 - 1\<close>. Where the table has a free slot,
  \<open>get_descriptor\<close> issues that id, stores it in the first free slot and in the counter;
  and \<open>utl_file_fopen\<close> with a valid line size, a valid mode, an allowed path and a
  successful \<open>fopen\<close> returns it. A handle that \<open>utl_file_fopen\<close> returns, in any state of
  the table, is that id: it is not \<open>INVALID_SLOTID\<close>, it is the counter afterwards, and it
  stands in a slot. In every state that a session reaches with fewer than \<open>2^32\<close> calls
  of \<open>utl_file_fopen\<close>, no id stands in two occupied slots.
\<close>

theorem handle_ids:
  "next_id c \<noteq> INVALID_SLOTID
   \<and> (find_slot (\<lambda>s. slot_id s = INVALID_SLOTID) (take MAX_SLOTS (slots st)) 0 = Some i \<longrightarrow>
        get_descriptor st p mls =
          (next_id (slotid st),
           st\<lparr>slots := (slots st)[i := \<lparr>slot_file = Some p, slot_max_linesize = mls,
                  slot_id = next_id (slotid st)\<rparr>],
              slotid := next_id (slotid st)\<rparr>))
   \<and> (find_slot (\<lambda>s. slot_id s = INVALID_SLOTID) (take MAX_SLOTS (slots st)) 0 = Some i
        \<and> CHECK_LINESIZE mls \<and> fopen_mode c1 = Some mode
        \<and> get_safe_path e st loc fname = (Inr fullname, st1)
        \<and> fopen e fullname mode = Inr (p, f) \<longrightarrow>
        fst (utl_file_fopen e st (Some loc) (Some fname) (Some [c1]) (Some mls))
          = Inr (next_id (slotid st)))
   \<and> (fst (utl_file_fopen e st location filename open_mode max_linesize) = Inr d \<longrightarrow>
        d \<noteq> INVALID_SLOTID \<and> d = next_id (slotid st)
        \<and> slotid (snd (utl_file_fopen e st location filename open_mode max_linesize)) = d
        \<and> (\<exists>j<MAX_SLOTS. slot_id (slots (snd (utl_file_fopen e st location filename open_mode
              max_linesize)) ! j) = d))
   \<and> (reach n st \<and> n < 2 ^ 32 \<longrightarrow> ids_unique st)"
proof -
  have "ids_unique st" if "reach n st \<and> n < 2 ^ 32"
    using that reach_table_inv [of n st] by (simp add: table_inv_def)
  with next_id_nonzero [of c] get_descriptor_free [of st i p mls]
    utl_file_fopen_free [of st i mls c1 mode e loc fname fullname st1 p f]
    utl_file_fopen_returns [of e st location filename open_mode max_linesize d]
  show ?thesis by blast
qed

lemmas fopen_eval = utl_file_fopen_def CHECK_LINESIZE_def MAX_LINESIZE_def fopen_mode_def
  open_file_def get_safe_path_def check_secure_locality_def example_env_def dir_matches_def
  get_descriptor_def MAX_SLOTS_def empty_slot_def INVALID_SLOTID_def Let_def

lemma open_a:
  "snd (utl_file_fopen example_env init_state (Some ''/tmp/allowed'') (Some ''a'') (Some ''r'') (Some 1024))
   = \<lparr>slots = \<lparr>slot_file = Some 100, slot_max_linesize = 1024, slot_id = 1\<rparr> # replicate 49 empty_slot,
      slotid = 1, plan = True, streams = [100 \<mapsto> example_file], files = Map.empty\<rparr>"
  by (simp add: fopen_eval init_state_def eval_nat_numeral)

lemma open_b_first:
  "snd (utl_file_fopen example_env
     \<lparr>slots = \<lparr>slot_file = Some 100, slot_max_linesize = 1024, slot_id = 1\<rparr> # replicate 49 empty_slot,
      slotid = 1, plan = True, streams = [100 \<mapsto> example_file], files = Map.empty\<rparr>
     (Some ''/tmp/allowed'') (Some ''b'') (Some ''r'') (Some 1024))
   = busy_state 2"
  by (simp add: fopen_eval busy_state_def eval_nat_numeral)

lemma word_of_nat_neq_1:
  "2 \<le> k \<Longrightarrow> k < 2 ^ 32 \<Longrightarrow> (of_nat k :: 32 word) \<noteq> 1"
proof
  assume k: "2 \<le> k" "k < 2 ^ 32" and e: "(of_nat k :: 32 word) = 1"
  from e have "unat (of_nat k :: 32 word) = unat (1 :: 32 word)" by simp
  with k show False by (simp add: unat_of_nat)
qed

lemma word_of_nat_neq_0:
  "2 \<le> k \<Longrightarrow> k < 2 ^ 32 \<Longrightarrow> (of_nat k :: 32 word) \<noteq> 0"
  by (rule of_nat_neq_0) simp_all

lemma close_b:
  assumes "2 \<le> k" "k < 2 ^ 32"
  shows "snd (utl_file_fclose (busy_state k) (of_nat k)) = mid_state k"
  using word_of_nat_neq_1 [OF assms]
  by (simp add: utl_file_fclose_def busy_state_def mid_state_def MAX_SLOTS_def close_slot_def
      fclose_def example_file_def INVALID_SLOTID_def eq_commute [of 1] fun_eq_iff)

lemma open_b:
  assumes "2 \<le> k" "Suc k < 2 ^ 32"
  shows "snd (utl_file_fopen example_env (mid_state k) (Some ''/tmp/allowed'') (Some ''b'')
            (Some ''r'') (Some 1024)) = busy_state (Suc k)"
proof -
  have "(of_nat k :: 32 word) + 1 \<noteq> 0"
    using word_of_nat_neq_0 [of "Suc k"] assms by (simp add: add.commute)
  then show ?thesis
    by (simp add: fopen_eval busy_state_def mid_state_def)
qed

lemma open_b_wrap:
  "snd (utl_file_fopen example_env (mid_state (2 ^ 32 - 1)) (Some ''/tmp/allowed'') (Some ''b'')
            (Some ''r'') (Some 1024)) = dup_state"
  by (simp add: fopen_eval dup_state_def mid_state_def)

lemma reach_mid_state: "2 \<le> k \<Longrightarrow> k < 2 ^ 32 \<Longrightarrow> reachable (mid_state k)"
proof (induction k rule: dec_induct)
  case base
  let ?S1 = "\<lparr>slots = \<lparr>slot_file = Some 100, slot_max_linesize = 1024, slot_id = 1\<rparr>
                 # replicate 49 empty_slot,
      slotid = 1, plan = True, streams = [100 \<mapsto> example_file], files = Map.empty\<rparr>"
  have "reach (Suc 0) (snd (utl_file_fopen example_env init_state (Some ''/tmp/allowed'') (Some ''a'')
      (Some ''r'') (Some 1024)))"
    by (rule reach_fopen [OF reach_init])
  then have "reach (Suc 0) ?S1" unfolding open_a .
  then have "reach (Suc (Suc 0)) (snd (utl_file_fopen example_env ?S1 (Some ''/tmp/allowed'')
      (Some ''b'') (Some ''r'') (Some 1024)))"
    by (rule reach_fopen)
  then have "reach (Suc (Suc 0)) (busy_state 2)" unfolding open_b_first .
  then have "reach (Suc (Suc 0)) (snd (utl_file_fclose (busy_state 2) (of_nat 2)))"
    by (rule reach_fclose)
  then show ?case using close_b [of 2] by (auto simp: reachable_def)
next
  case (step k)
  then obtain n where "reach n (mid_state k)" by (auto simp: reachable_def)
  then have "reach (Suc n) (busy_state (Suc k))"
    using reach_fopen [of n "mid_state k" example_env "Some ''/tmp/allowed''" "Some ''b''"
        "Some ''r''" "Some 1024"] open_b [of k] step by simp
  then have "reach (Suc n) (snd (utl_file_fclose (busy_state (Suc k)) (of_nat (Suc k))))"
    by (rule reach_fclose)
  with close_b [of "Suc k"] step show ?case by (auto simp: reachable_def)
qed

text \<open>
  Claim C8 as stated fails in a state that a session reaches: with \<open>/tmp/allowed/a\<close> open
  under the id 1, the open of \<open>/tmp/allowed/b\<close> that takes the counter from \<open>2^32 - 1\<close>
  past 0 issues the id 1 again.
\<close>

theorem duplicate_id_counterexample: "reachable dup_state \<and> \<not> ids_unique dup_state"
proof -
  from reach_mid_state [of "2 ^ 32 - 1"] obtain n where "reach n (mid_state (2 ^ 32 - 1))"
    by (auto simp: reachable_def)
  then have "reach (Suc n) dup_state"
    using reach_fopen [of n "mid_state (2 ^ 32 - 1)" example_env "Some ''/tmp/allowed''"
        "Some ''b''" "Some ''r''" "Some 1024"] open_b_wrap by simp
  then have "reachable dup_state" by (auto simp: reachable_def)
  moreover have "\<not> ids_unique dup_state"
  proof
    assume u: "ids_unique dup_state"
    have "i = j" if "i < MAX_SLOTS" "j < MAX_SLOTS"
      "slot_id (slots dup_state ! i) \<noteq> INVALID_SLOTID"
      "slot_id (slots dup_state ! i) = slot_id (slots dup_state ! j)" for i j
      using u that unfolding ids_unique_def by blast
    from this [of 0 1] show False
      by (simp add: dup_state_def INVALID_SLOTID_def MAX_SLOTS_def)
  qed
  ultimately show ?thesis by simp
qed

lemma mid_state_free:
  "find_slot (\<lambda>s. slot_id s = INVALID_SLOTID) (take MAX_SLOTS (slots (mid_state k))) 0 = Some 1"
  by (simp add: mid_state_def MAX_SLOTS_def INVALID_SLOTID_def)

lemma mid_state_path:
  "get_safe_path example_env (mid_state k) ''/tmp/allowed'' ''b''
     = (Inr ''/tmp/allowed/b'', mid_state k)"
  by (simp add: get_safe_path_def check_secure_locality_def example_env_def dir_matches_def
      mid_state_def Let_def)

text \<open>
  The theorem of C8 at the first open of a session, and at an open with the counter at
  \<open>2^32 - 1\<close>, which issues the id 1 and not 0.
\<close>

theorem handle_ids_witness:
  "fst (utl_file_fopen example_env init_state (Some ''/tmp/allowed'') (Some ''a'') (Some ''r'')
      (Some 1024)) = Inr 1
   \<and> (1 :: 32 word) \<noteq> INVALID_SLOTID
   \<and> reach 1 (snd (utl_file_fopen example_env init_state (Some ''/tmp/allowed'') (Some ''a'')
      (Some ''r'') (Some 1024)))
   \<and> ids_unique (snd (utl_file_fopen example_env init_state (Some ''/tmp/allowed'') (Some ''a'')
      (Some ''r'') (Some 1024)))
   \<and> slotid (mid_state (2 ^ 32 - 1)) = - 1
   \<and> next_id (- 1) = 1
   \<and> fst (get_descriptor (mid_state (2 ^ 32 - 1)) 101 1024) = 1
   \<and> slot_id (slots (snd (get_descriptor (mid_state (2 ^ 32 - 1)) 101 1024)) ! 1) = 1
   \<and> slotid (snd (get_descriptor (mid_state (2 ^ 32 - 1)) 101 1024)) = 1
   \<and> fst (utl_file_fopen example_env (mid_state (2 ^ 32 - 1)) (Some ''/tmp/allowed'') (Some ''b'')
      (Some ''r'') (Some 1024)) = Inr 1"
proof -
  have o: "fst (utl_file_fopen example_env init_state (Some ''/tmp/allowed'') (Some ''a'') (Some ''r'')
      (Some 1024)) = Inr 1"
    by (simp add: fopen_eval init_state_def eval_nat_numeral)
  have r: "reach 1 (snd (utl_file_fopen example_env init_state (Some ''/tmp/allowed'') (Some ''a'')
      (Some ''r'') (Some 1024)))"
    using reach_fopen [OF reach_init] by simp
  note t1 = handle_ids [where e = example_env and st = init_state
      and location = "Some ''/tmp/allowed''" and filename = "Some ''a''" and open_mode = "Some ''r''"
      and max_linesize = "Some 1024" and d = 1]
  note t2 = handle_ids [where n = 1 and st = "snd (utl_file_fopen example_env init_state
      (Some ''/tmp/allowed'') (Some ''a'') (Some ''r'') (Some 1024))"]
  note t3 = handle_ids [where st = "mid_state (2 ^ 32 - 1)" and i = 1 and p = 101 and mls = 1024
      and ?c1.0 = "CHR ''r''" and mode = "''r''" and e = example_env and loc = "''/tmp/allowed''"
      and fname = "''b''" and fullname = "''/tmp/allowed/b''" and ?st1.0 = "mid_state (2 ^ 32 - 1)"
      and f = example_file and c = "- 1"]
  from t1 o have a: "(1 :: 32 word) \<noteq> INVALID_SLOTID" by blast
  from t2 r have b: "ids_unique (snd (utl_file_fopen example_env init_state
      (Some ''/tmp/allowed'') (Some ''a'') (Some ''r'') (Some 1024)))" by simp
  have w: "slotid (mid_state (2 ^ 32 - 1)) = - 1" by (simp add: mid_state_def)
  have n: "next_id (- 1) = 1" by (simp add: next_id_def)
  have ls: "CHECK_LINESIZE 1024" by (simp add: CHECK_LINESIZE_def MAX_LINESIZE_def)
  have md: "fopen_mode (CHR ''r'') = Some ''r''" by (simp add: fopen_mode_def)
  have fo: "fopen example_env ''/tmp/allowed/b'' ''r'' = Inr (101, example_file)"
    by (simp add: example_env_def)
  from t3 mid_state_free [of "2 ^ 32 - 1"]
  have gd: "get_descriptor (mid_state (2 ^ 32 - 1)) 101 1024 =
          (next_id (slotid (mid_state (2 ^ 32 - 1))),
           (mid_state (2 ^ 32 - 1))\<lparr>slots := (slots (mid_state (2 ^ 32 - 1)))[1 :=
                \<lparr>slot_file = Some 101, slot_max_linesize = 1024,
                  slot_id = next_id (slotid (mid_state (2 ^ 32 - 1)))\<rparr>],
              slotid := next_id (slotid (mid_state (2 ^ 32 - 1)))\<rparr>)"
    by blast
  have c: "fst (get_descriptor (mid_state (2 ^ 32 - 1)) 101 1024) = 1"
    "slot_id (slots (snd (get_descriptor (mid_state (2 ^ 32 - 1)) 101 1024)) ! 1) = 1"
    "slotid (snd (get_descriptor (mid_state (2 ^ 32 - 1)) 101 1024)) = 1"
    unfolding gd w n by (simp_all add: mid_state_def)
  from t3 mid_state_free [of "2 ^ 32 - 1"] ls md mid_state_path [of "2 ^ 32 - 1"] fo
  have "fst (utl_file_fopen example_env (mid_state (2 ^ 32 - 1)) (Some ''/tmp/allowed'') (Some ''b'')
      (Some ''r'') (Some 1024)) = Inr (next_id (slotid (mid_state (2 ^ 32 - 1))))"
    by blast
  then have d: "fst (utl_file_fopen example_env (mid_state (2 ^ 32 - 1)) (Some ''/tmp/allowed'') (Some ''b'')
      (Some ''r'') (Some 1024)) = Inr 1"
    unfolding w n .
  from o a r b w n c d show ?thesis by simp
qed

subsection \<open>Reading a line\<close>

lemma line_of_0 [simp]: "line_of 0 input = []"
  by (simp add: line_of_def)

lemma rest_of_0 [simp]: "rest_of 0 input = input"
  by (simp add: rest_of_def)

lemma line_of_Nil [simp]: "line_of n [] = []"
  by (simp add: line_of_def)

lemma rest_of_Nil [simp]: "rest_of n [] = []"
  by (simp add: rest_of_def)

lemma line_of_char: "c \<noteq> CR \<Longrightarrow> c \<noteq> LF \<Longrightarrow> line_of (Suc n) (c # cs) = c # line_of n cs"
  by (simp add: line_of_def)

lemma rest_of_char: "c \<noteq> CR \<Longrightarrow> c \<noteq> LF \<Longrightarrow> rest_of (Suc n) (c # cs) = rest_of n cs"
  by (simp add: rest_of_def)

lemma line_of_terminator: "c = CR \<or> c = LF \<Longrightarrow> line_of n (c # cs) = []"
  by (auto simp: line_of_def)

lemma rest_of_terminator:
  "c = CR \<or> c = LF \<Longrightarrow> rest_of (Suc n) (c # cs) = skip_terminator (c # cs)"
  by (auto simp: rest_of_def)

lemma CR_neq_LF [simp]: "CR \<noteq> LF"
  by (simp add: CR_def LF_def)

lemma skip_terminator_LF [simp]: "skip_terminator (LF # r) = r"
  by (cases r) simp_all

lemma skip_terminator_CR [simp]:
  "skip_terminator [CR] = []"
  "skip_terminator (CR # c # r) = (if c = LF then r else c # r)"
  by simp_all

text \<open>The loop of \<open>get_line\<close> with room for \<open>n\<close> more characters.\<close>

lemma get_line_loop_spec:
  assumes "pending f = input" and "nat (max_linesize - csize) = n"
  shows "\<exists>en'. get_line_loop f max_linesize csize buffer eof en =
           (f\<lparr>pending := rest_of n input\<rparr>, csize + int (length (line_of n input)),
            buffer @ line_of n input, eof \<and> (input = [] \<or> n = 0), en')
         \<and> (input = [] \<and> 0 < n \<longrightarrow> en' = (case rd_errno f of None \<Rightarrow> en | Some x \<Rightarrow> Some x))
         \<and> (n = 0 \<longrightarrow> en' = en)"
  using assms
proof (induction input arbitrary: f csize buffer eof en n)
  case Nil
  show ?case
  proof (cases "csize < max_linesize")
    case True
    with Nil show ?thesis
      by (subst get_line_loop.simps) (auto simp: fgetc_def)
  next
    case False
    with Nil show ?thesis
      by (subst get_line_loop.simps) auto
  qed
next
  case (Cons c cs)
  show ?case
  proof (cases "csize < max_linesize")
    case False
    with Cons.prems have "n = 0" by simp
    with False Cons.prems show ?thesis
      by (subst get_line_loop.simps) auto
  next
    case True
    with Cons.prems obtain m where n: "n = Suc m" and m: "nat (max_linesize - (csize + 1)) = m"
      by (cases n) auto
    have g: "fgetc f en = (Some c, f\<lparr>pending := cs\<rparr>, en)"
      using Cons.prems by (simp add: fgetc_def)
    show ?thesis
    proof (cases "c = CR")
      case True
      show ?thesis
      proof (cases cs)
        case Nil
        with True \<open>csize < max_linesize\<close> g n Cons.prems show ?thesis
          by (subst get_line_loop.simps)
             (simp add: fgetc_def line_of_terminator rest_of_terminator)
      next
        case (Cons c2 cs2)
        with True \<open>csize < max_linesize\<close> g n Cons.prems show ?thesis
          by (subst get_line_loop.simps)
             (simp add: fgetc_def ungetc_def line_of_terminator rest_of_terminator)
      qed
    next
      case False
      show ?thesis
      proof (cases "c = LF")
        case True
        with False \<open>csize < max_linesize\<close> g n Cons.prems show ?thesis
          by (subst get_line_loop.simps)
             (cases cs; simp add: line_of_terminator rest_of_terminator)
      next
        case lf: False
        have p: "pending (f\<lparr>pending := cs\<rparr>) = cs" by simp
        from Cons.IH [OF p m, of "buffer @ [c]" False en]
        obtain en' where ih: "get_line_loop (f\<lparr>pending := cs\<rparr>) max_linesize (csize + 1) (buffer @ [c]) False en =
           (f\<lparr>pending := rest_of m cs\<rparr>, csize + 1 + int (length (line_of m cs)),
            (buffer @ [c]) @ line_of m cs, False, en')"
          by auto
        have "get_line_loop f max_linesize csize buffer eof en =
            get_line_loop (f\<lparr>pending := cs\<rparr>) max_linesize (csize + 1) (buffer @ [c]) False en"
          using False lf \<open>csize < max_linesize\<close> g
          by (subst get_line_loop.simps) simp
        with ih False lf n show ?thesis
          by (simp add: line_of_char rest_of_char)
      qed
    qed
  qed
qed

lemma get_line_spec:
  "get_line e f max_linesize =
     (if pending f = [] \<or> nat max_linesize = 0 then
        (case (if nat max_linesize = 0 then None else rd_errno f) of
           None \<Rightarrow> (Inr (None, True), f)
         | Some x \<Rightarrow> (Inl (if x = EBADF then INVALID_OPERATION else READ_ERROR), f))
      else if pg_verifymbstr e (line_of (nat max_linesize) (pending f))
        then (Inr (Some (line_of (nat max_linesize) (pending f)), False),
              f\<lparr>pending := rest_of (nat max_linesize) (pending f)\<rparr>)
      else (Inl ERRCODE_CHARACTER_NOT_IN_REPERTOIRE,
            f\<lparr>pending := rest_of (nat max_linesize) (pending f)\<rparr>))"
proof -
  from get_line_loop_spec [of f "pending f" max_linesize 0 "nat max_linesize" "[]" True None]
  obtain en' where l: "get_line_loop f max_linesize 0 [] True None =
           (f\<lparr>pending := rest_of (nat max_linesize) (pending f)\<rparr>,
            int (length (line_of (nat max_linesize) (pending f))),
            line_of (nat max_linesize) (pending f),
            pending f = [] \<or> nat max_linesize = 0, en')"
    and e1: "pending f = [] \<and> 0 < nat max_linesize \<longrightarrow> en' = rd_errno f"
    and e2: "nat max_linesize = 0 \<longrightarrow> en' = None"
    by (auto split: option.splits)
  show ?thesis
  proof (cases "nat max_linesize = 0")
    case True
    with l e2 show ?thesis by (simp add: get_line_def)
  next
    case False
    show ?thesis
    proof (cases "pending f = []")
      case True
      with False l e1 show ?thesis
        by (cases "rd_errno f") (simp_all add: get_line_def)
    next
      case ne: False
      with False l show ?thesis by (simp add: get_line_def)
    qed
  qed
qed

lemma takeWhile_line:
  assumes "CR \<notin> set s" "LF \<notin> set s"
  shows "takeWhile (\<lambda>c. c \<noteq> CR \<and> c \<noteq> LF) (s @ r) = s @ takeWhile (\<lambda>c. c \<noteq> CR \<and> c \<noteq> LF) r"
    and "dropWhile (\<lambda>c. c \<noteq> CR \<and> c \<noteq> LF) (s @ r) = dropWhile (\<lambda>c. c \<noteq> CR \<and> c \<noteq> LF) r"
  using assms by (auto intro!: takeWhile_append2 dropWhile_append2)

lemma line_of_no_terminator: "CR \<notin> set (line_of n input) \<and> LF \<notin> set (line_of n input)"
proof -
  have "\<forall>c \<in> set (takeWhile (\<lambda>c. c \<noteq> CR \<and> c \<noteq> LF) input). c \<noteq> CR \<and> c \<noteq> LF"
    by (auto dest: set_takeWhileD)
  then show ?thesis
    unfolding line_of_def by (metis in_set_takeD)
qed

lemma line_rest_terminated:
  assumes "CR \<notin> set s" "LF \<notin> set s" "length s < n" "t = CR \<or> t = LF"
  shows "line_of n (s @ t # r) = s" and "rest_of n (s @ t # r) = skip_terminator (t # r)"
  using assms by (auto simp: line_of_def rest_of_def takeWhile_line)

lemma line_rest_full:
  assumes "CR \<notin> set s" "LF \<notin> set s" "n \<le> length s"
  shows "line_of n (s @ r) = take n s" and "rest_of n (s @ r) = drop n s @ r"
  using assms by (auto simp: line_of_def rest_of_def takeWhile_line)

text \<open>
  Claim C4. Let \<open>s\<close> hold neither \<open>CR\<close> nor \<open>LF\<close>. When \<open>s\<close> is shorter than
  \<open>max_linesize\<close> and the input is \<open>s\<close> followed by \<open>CR LF\<close>, by \<open>LF\<close>, by \<open>CR\<close> and a
  character other than \<open>LF\<close>, or by a last \<open>CR\<close>, \<open>get_line\<close> returns \<open>s\<close> and leaves the input
  behind the terminator, the character after a lone \<open>CR\<close> included. When \<open>s\<close> has
  \<open>max_linesize\<close> characters or more, \<open>get_line\<close> returns the first \<open>max_linesize\<close> of them and
  leaves the rest. A returned line never holds \<open>CR\<close> or \<open>LF\<close> and is never longer than
  \<open>max_linesize\<close>.
\<close>

theorem get_line_terminators:
  assumes "CR \<notin> set s" and "LF \<notin> set s"
  shows "(length s < nat max_linesize \<and> pg_verifymbstr e s \<longrightarrow>
            (pending f = s @ CR # LF # r \<longrightarrow>
               get_line e f max_linesize = (Inr (Some s, False), f\<lparr>pending := r\<rparr>))
          \<and> (pending f = s @ LF # r \<longrightarrow>
               get_line e f max_linesize = (Inr (Some s, False), f\<lparr>pending := r\<rparr>))
          \<and> (pending f = s @ CR # c # r \<and> c \<noteq> LF \<longrightarrow>
               get_line e f max_linesize = (Inr (Some s, False), f\<lparr>pending := c # r\<rparr>))
          \<and> (pending f = s @ [CR] \<longrightarrow>
               get_line e f max_linesize = (Inr (Some s, False), f\<lparr>pending := []\<rparr>)))
       \<and> (0 < max_linesize \<and> nat max_linesize \<le> length s
            \<and> pg_verifymbstr e (take (nat max_linesize) s) \<and> pending f = s @ r \<longrightarrow>
            get_line e f max_linesize
              = (Inr (Some (take (nat max_linesize) s), False),
                 f\<lparr>pending := drop (nat max_linesize) s @ r\<rparr>))
       \<and> (fst (get_line e f max_linesize) = Inr (Some line, iseof) \<longrightarrow>
            CR \<notin> set line \<and> LF \<notin> set line \<and> length line \<le> nat max_linesize \<and> \<not> iseof)"
proof -
  let ?n = "nat max_linesize"
  have a: "get_line e f max_linesize = (Inr (Some s, False), f\<lparr>pending := skip_terminator (t # r')\<rparr>)"
    if "length s < ?n" "pg_verifymbstr e s" "pending f = s @ t # r'" "t = CR \<or> t = LF" for t r'
    using that line_rest_terminated [OF assms that(1,4), of r']
    by (simp add: get_line_spec)
  have b: "get_line e f max_linesize
              = (Inr (Some (take ?n s), False), f\<lparr>pending := drop ?n s @ r\<rparr>)"
    if "0 < max_linesize" "?n \<le> length s" "pg_verifymbstr e (take ?n s)" "pending f = s @ r"
  proof -
    from that have "s \<noteq> []" by auto
    with that line_rest_full [OF assms that(2), of r] show ?thesis
      by (simp add: get_line_spec)
  qed
  have c: "CR \<notin> set line \<and> LF \<notin> set line \<and> length line \<le> ?n \<and> \<not> iseof"
    if "fst (get_line e f max_linesize) = Inr (Some line, iseof)"
  proof -
    from that have "line = line_of ?n (pending f) \<and> \<not> iseof"
      by (auto simp: get_line_spec split: if_splits option.splits)
    with line_of_no_terminator [of ?n "pending f"] show ?thesis
      by (simp add: line_of_def)
  qed
  from a [of CR "LF # r"] a [of LF r] a [of CR "c # r"] a [of CR "[]"] b c
  show ?thesis by auto
qed

text \<open>The theorem of C4 on the line \<open>ab\<close> before each kind of terminator, and on a limit of 2.\<close>

theorem get_line_terminators_witness:
  "get_line example_env (example_file\<lparr>pending := ''ab'' @ CR # LF # ''cd''\<rparr>) 10
     = (Inr (Some ''ab'', False), example_file\<lparr>pending := ''cd''\<rparr>)
   \<and> get_line example_env (example_file\<lparr>pending := ''ab'' @ LF # ''cd''\<rparr>) 10
     = (Inr (Some ''ab'', False), example_file\<lparr>pending := ''cd''\<rparr>)
   \<and> get_line example_env (example_file\<lparr>pending := ''ab'' @ CR # CHR ''c'' # ''d''\<rparr>) 10
     = (Inr (Some ''ab'', False), example_file\<lparr>pending := ''cd''\<rparr>)
   \<and> get_line example_env (example_file\<lparr>pending := ''abcd'' @ LF # ''ef''\<rparr>) 2
     = (Inr (Some ''ab'', False), example_file\<lparr>pending := ''cd'' @ LF # ''ef''\<rparr>)"
proof -
  have n: "CR \<notin> set ''ab''" "LF \<notin> set ''ab''" "CR \<notin> set ''abcd''" "LF \<notin> set ''abcd''"
    by (simp_all add: CR_def LF_def)
  have v: "pg_verifymbstr example_env x" for x by (simp add: example_env_def)
  have c: "CHR ''c'' \<noteq> LF" by (simp add: LF_def)
  note t = get_line_terminators [OF n(1,2), of 10 example_env _ "''cd''"]
  from t [of "example_file\<lparr>pending := ''ab'' @ CR # LF # ''cd''\<rparr>"]
    t [of "example_file\<lparr>pending := ''ab'' @ LF # ''cd''\<rparr>"]
    get_line_terminators [OF n(1,2), of 10 example_env
      "example_file\<lparr>pending := ''ab'' @ CR # CHR ''c'' # ''d''\<rparr>" _ "CHR ''c''" "''d''"]
    get_line_terminators [OF n(3,4), of 2 example_env
      "example_file\<lparr>pending := ''abcd'' @ LF # ''ef''\<rparr>" _ _ "LF # ''ef''"]
    v c
  show ?thesis by simp
qed

subsection \<open>The end of the stream\<close>

lemma get_line_result:
  "fst (get_line e f max_linesize) = Inr (result, iseof) \<Longrightarrow> iseof = (result = None)"
  by (auto simp: get_line_spec split: if_splits option.splits)

lemma read_stream_result:
  assumes "read_stream e st fp max_linesize = (Inr (result, iseof), st')"
  shows "iseof = (result = None)"
proof -
  from assms obtain f f1 where "get_line e f max_linesize = (Inr (result, iseof), f1)"
    by (auto simp: read_stream_def split: option.splits prod.splits)
  then have "fst (get_line e f max_linesize) = Inr (result, iseof)" by simp
  then show ?thesis by (rule get_line_result)
qed

lemma get_line_or_nextline:
  "utl_file_get_line e st fh None =
     (case utl_file_get_nextline e st fh of
        (Inr None, st') \<Rightarrow> (Inl ERRCODE_NO_DATA_FOUND, st')
      | (r, st') \<Rightarrow> (r, st'))"
proof (cases fh)
  case None
  then show ?thesis by (simp add: utl_file_get_line_def utl_file_get_nextline_def)
next
  case (Some d)
  show ?thesis
  proof (cases "get_stream st d")
    case (Inl err)
    with Some show ?thesis by (simp add: utl_file_get_line_def utl_file_get_nextline_def)
  next
    case (Inr a)
    obtain fp mls where a: "a = (fp, mls)" by (cases a)
    obtain r st1 where rs: "read_stream e st fp mls = (r, st1)"
      by (cases "read_stream e st fp mls")
    show ?thesis
    proof (cases r)
      case (Inl err)
      with Some Inr a rs show ?thesis
        by (simp add: utl_file_get_line_def utl_file_get_nextline_def)
    next
      case (Inr b)
      obtain result iseof where b: "b = (result, iseof)" by (cases b)
      from read_stream_result rs Inr b have "iseof = (result = None)" by simp
      with Some \<open>get_stream st d = Inr a\<close> a rs Inr b show ?thesis
        by (cases result) (simp_all add: utl_file_get_line_def utl_file_get_nextline_def)
    qed
  qed
qed

lemma line_rest_unterminated:
  assumes "CR \<notin> set s" "LF \<notin> set s" "length s < n"
  shows "line_of n s = s" and "rest_of n s = []"
proof -
  from assms have "\<forall>c \<in> set s. c \<noteq> CR \<and> c \<noteq> LF" by auto
  then have tw: "takeWhile (\<lambda>c. c \<noteq> CR \<and> c \<noteq> LF) s = s"
    and dw: "dropWhile (\<lambda>c. c \<noteq> CR \<and> c \<noteq> LF) s = []"
    by (simp_all add: takeWhile_eq_all_conv dropWhile_eq_Nil_conv)
  show "line_of n s = s"
    by (simp only: line_of_def tw) (use assms in simp)
  show "rest_of n s = []"
    by (simp only: rest_of_def tw dw) (use assms in simp)
qed

lemma utl_file_get_line_len:
  assumes "get_stream st d = Inr (Some p, mls)" and "streams st p = Some f"
  shows "utl_file_get_line e st (Some d) (Some l) =
     (if \<not> CHECK_LINESIZE l then (Inl INVALID_MAXLINESIZE, st)
      else case get_line e f (min mls l) of
        (Inl err, f1) \<Rightarrow> (Inl err, st\<lparr>streams := (streams st)(p \<mapsto> f1)\<rparr>)
      | (Inr (result, iseof), f1) \<Rightarrow>
          if iseof then (Inl ERRCODE_NO_DATA_FOUND, st\<lparr>streams := (streams st)(p \<mapsto> f1)\<rparr>)
          else (Inr result, st\<lparr>streams := (streams st)(p \<mapsto> f1)\<rparr>))"
proof -
  have m: "(if mls > l then l else mls) = min mls l" by (simp add: min_def)
  obtain r f1 where g: "get_line e f (min mls l) = (r, f1)" by (cases "get_line e f (min mls l)")
  show ?thesis
  proof (cases r)
    case (Inl err)
    with g assms show ?thesis by (simp add: utl_file_get_line_def read_stream_def m)
  next
    case (Inr b)
    obtain result iseof where "b = (result, iseof)" by (cases b)
    with Inr g assms show ?thesis by (simp add: utl_file_get_line_def read_stream_def m)
  qed
qed

text \<open>
  Claim C5, as amended. Let the handle \<open>d\<close> stand for an open stream. At the end of the
  stream, with nothing read and no read error, \<open>utl_file_get_line\<close> fails with
  \<open>ERRCODE_NO_DATA_FOUND\<close> and \<open>utl_file_get_nextline\<close> returns null. When the stream has input
  left, the line size is positive and the text is well-formed, both return the line and
  not the end of the stream; so they do for a last line \<open>s\<close> that the end of the stream
  follows with no terminator. For every handle, \<open>utl_file_get_line\<close> without a length is
  \<open>utl_file_get_nextline\<close> with \<open>ERRCODE_NO_DATA_FOUND\<close> in the place of null. With a length
  \<open>l\<close>, \<open>utl_file_get_line\<close> fails with \<open>INVALID_MAXLINESIZE\<close> and reads nothing when \<open>l\<close> is not
  from 1 to 32767; otherwise it reads as it does without a length, with the smaller of
  \<open>l\<close> and the line size of the handle as the line size: \<open>ERRCODE_NO_DATA_FOUND\<close> at the end
  of the stream, the line when the stream has input left, and for an \<open>l\<close> that is not below
  the line size of the handle the very result of the call without a length.
\<close>

theorem get_line_end_of_stream:
  assumes "get_stream st d = Inr (Some p, mls)" and "streams st p = Some f"
  shows "(pending f = [] \<and> rd_errno f = None \<longrightarrow>
            utl_file_get_line e st (Some d) None
              = (Inl ERRCODE_NO_DATA_FOUND, st\<lparr>streams := (streams st)(p \<mapsto> f)\<rparr>)
            \<and> utl_file_get_nextline e st (Some d)
              = (Inr None, st\<lparr>streams := (streams st)(p \<mapsto> f)\<rparr>))
       \<and> (pending f \<noteq> [] \<and> 0 < mls \<and> pg_verifymbstr e (line_of (nat mls) (pending f)) \<longrightarrow>
            utl_file_get_line e st (Some d) None
              = (Inr (Some (line_of (nat mls) (pending f))),
                 st\<lparr>streams := (streams st)(p \<mapsto> f\<lparr>pending := rest_of (nat mls) (pending f)\<rparr>)\<rparr>)
            \<and> utl_file_get_nextline e st (Some d)
              = (Inr (Some (line_of (nat mls) (pending f))),
                 st\<lparr>streams := (streams st)(p \<mapsto> f\<lparr>pending := rest_of (nat mls) (pending f)\<rparr>)\<rparr>))
       \<and> (pending f = s \<and> s \<noteq> [] \<and> CR \<notin> set s \<and> LF \<notin> set s \<and> length s < nat mls
            \<and> pg_verifymbstr e s \<longrightarrow>
            utl_file_get_line e st (Some d) None
              = (Inr (Some s), st\<lparr>streams := (streams st)(p \<mapsto> f\<lparr>pending := []\<rparr>)\<rparr>)
            \<and> utl_file_get_nextline e st (Some d)
              = (Inr (Some s), st\<lparr>streams := (streams st)(p \<mapsto> f\<lparr>pending := []\<rparr>)\<rparr>))
       \<and> utl_file_get_line e st fh None =
            (case utl_file_get_nextline e st fh of
               (Inr None, st') \<Rightarrow> (Inl ERRCODE_NO_DATA_FOUND, st')
             | (r, st') \<Rightarrow> (r, st'))
       \<and> (\<not> CHECK_LINESIZE l \<longrightarrow>
            utl_file_get_line e st (Some d) (Some l) = (Inl INVALID_MAXLINESIZE, st))
       \<and> (CHECK_LINESIZE l \<and> pending f = [] \<and> rd_errno f = None \<longrightarrow>
            utl_file_get_line e st (Some d) (Some l)
              = (Inl ERRCODE_NO_DATA_FOUND, st\<lparr>streams := (streams st)(p \<mapsto> f)\<rparr>))
       \<and> (CHECK_LINESIZE l \<and> pending f \<noteq> [] \<and> 0 < mls
            \<and> pg_verifymbstr e (line_of (nat (min mls l)) (pending f)) \<longrightarrow>
            utl_file_get_line e st (Some d) (Some l)
              = (Inr (Some (line_of (nat (min mls l)) (pending f))),
                 st\<lparr>streams := (streams st)(p \<mapsto> f\<lparr>pending := rest_of (nat (min mls l)) (pending f)\<rparr>)\<rparr>))
       \<and> (CHECK_LINESIZE l \<and> mls \<le> l \<longrightarrow>
            utl_file_get_line e st (Some d) (Some l) = utl_file_get_line e st (Some d) None)"
proof -
  have 1: "utl_file_get_nextline e st (Some d) = (Inr None, st\<lparr>streams := (streams st)(p \<mapsto> f)\<rparr>)"
    if "pending f = []" "rd_errno f = None"
    using that assms
    by (simp add: utl_file_get_nextline_def read_stream_def get_line_spec)
  have 2: "utl_file_get_nextline e st (Some d)
              = (Inr (Some (line_of (nat mls) (pending f))),
                 st\<lparr>streams := (streams st)(p \<mapsto> f\<lparr>pending := rest_of (nat mls) (pending f)\<rparr>)\<rparr>)"
    if "pending f \<noteq> []" "0 < mls" "pg_verifymbstr e (line_of (nat mls) (pending f))"
    using that assms
    by (simp add: utl_file_get_nextline_def read_stream_def get_line_spec)
  have 3: "utl_file_get_nextline e st (Some d)
              = (Inr (Some s), st\<lparr>streams := (streams st)(p \<mapsto> f\<lparr>pending := []\<rparr>)\<rparr>)"
    if "pending f = s" "s \<noteq> []" "CR \<notin> set s" "LF \<notin> set s" "length s < nat mls"
       "pg_verifymbstr e s"
    using 2 that line_rest_unterminated [OF that(3,4,5)] by auto
  note g = get_line_or_nextline [of e st "Some d"]
  from 1 have g1: "utl_file_get_line e st (Some d) None
              = (Inl ERRCODE_NO_DATA_FOUND, st\<lparr>streams := (streams st)(p \<mapsto> f)\<rparr>)"
    if "pending f = []" "rd_errno f = None"
    using that g by simp
  from 2 have g2: "utl_file_get_line e st (Some d) None
              = (Inr (Some (line_of (nat mls) (pending f))),
                 st\<lparr>streams := (streams st)(p \<mapsto> f\<lparr>pending := rest_of (nat mls) (pending f)\<rparr>)\<rparr>)"
    if "pending f \<noteq> []" "0 < mls" "pg_verifymbstr e (line_of (nat mls) (pending f))"
    using that g by simp
  from 3 have g3: "utl_file_get_line e st (Some d) None
              = (Inr (Some s), st\<lparr>streams := (streams st)(p \<mapsto> f\<lparr>pending := []\<rparr>)\<rparr>)"
    if "pending f = s" "s \<noteq> []" "CR \<notin> set s" "LF \<notin> set s" "length s < nat mls"
       "pg_verifymbstr e s"
    using that g by simp
  note ll = utl_file_get_line_len [OF assms, of e l]
  have 5: "utl_file_get_line e st (Some d) (Some l) = (Inl INVALID_MAXLINESIZE, st)"
    if "\<not> CHECK_LINESIZE l"
    using that ll by simp
  have 6: "utl_file_get_line e st (Some d) (Some l)
              = (Inl ERRCODE_NO_DATA_FOUND, st\<lparr>streams := (streams st)(p \<mapsto> f)\<rparr>)"
    if "CHECK_LINESIZE l" "pending f = []" "rd_errno f = None"
    using that ll by (simp add: get_line_spec)
  have 7: "utl_file_get_line e st (Some d) (Some l)
              = (Inr (Some (line_of (nat (min mls l)) (pending f))),
                 st\<lparr>streams := (streams st)(p \<mapsto> f\<lparr>pending := rest_of (nat (min mls l)) (pending f)\<rparr>)\<rparr>)"
    if "CHECK_LINESIZE l" "pending f \<noteq> []" "0 < mls"
       "pg_verifymbstr e (line_of (nat (min mls l)) (pending f))"
  proof -
    from that(1,3) have nz: "(nat (min mls l) = 0) = False" "(min mls l \<le> 0) = False"
      by (auto simp: CHECK_LINESIZE_def min_def)
    from that ll show ?thesis by (simp add: get_line_spec nz)
  qed
  have 8: "utl_file_get_line e st (Some d) (Some l) = utl_file_get_line e st (Some d) None"
    if "CHECK_LINESIZE l" "mls \<le> l"
  proof -
    from that(2) have "(if mls > l then l else mls) = mls" by simp
    with that(1) assms(1) show ?thesis by (simp add: utl_file_get_line_def)
  qed
  have a: "pending f = [] \<and> rd_errno f = None \<longrightarrow>
            utl_file_get_line e st (Some d) None
              = (Inl ERRCODE_NO_DATA_FOUND, st\<lparr>streams := (streams st)(p \<mapsto> f)\<rparr>)
            \<and> utl_file_get_nextline e st (Some d)
              = (Inr None, st\<lparr>streams := (streams st)(p \<mapsto> f)\<rparr>)"
    using 1 g1 by blast
  have b: "pending f \<noteq> [] \<and> 0 < mls \<and> pg_verifymbstr e (line_of (nat mls) (pending f)) \<longrightarrow>
            utl_file_get_line e st (Some d) None
              = (Inr (Some (line_of (nat mls) (pending f))),
                 st\<lparr>streams := (streams st)(p \<mapsto> f\<lparr>pending := rest_of (nat mls) (pending f)\<rparr>)\<rparr>)
            \<and> utl_file_get_nextline e st (Some d)
              = (Inr (Some (line_of (nat mls) (pending f))),
                 st\<lparr>streams := (streams st)(p \<mapsto> f\<lparr>pending := rest_of (nat mls) (pending f)\<rparr>)\<rparr>)"
    using 2 g2 by blast
  have c: "pending f = s \<and> s \<noteq> [] \<and> CR \<notin> set s \<and> LF \<notin> set s \<and> length s < nat mls
            \<and> pg_verifymbstr e s \<longrightarrow>
            utl_file_get_line e st (Some d) None
              = (Inr (Some s), st\<lparr>streams := (streams st)(p \<mapsto> f\<lparr>pending := []\<rparr>)\<rparr>)
            \<and> utl_file_get_nextline e st (Some d)
              = (Inr (Some s), st\<lparr>streams := (streams st)(p \<mapsto> f\<lparr>pending := []\<rparr>)\<rparr>)"
    using 3 g3 by blast
  from a b c get_line_or_nextline [of e st fh] 5 6 7 8 show ?thesis by blast
qed

lemma reading_state_handle:
  "get_stream (reading_state input) 1 = Inr (Some 100, 1024)"
  "streams (reading_state input) 100 = Some (example_file\<lparr>pending := input\<rparr>)"
  by (simp_all add: reading_state_def get_stream_def INVALID_SLOTID_def MAX_SLOTS_def)

lemma reading_state_read:
  "(reading_state input)\<lparr>streams :=
      (streams (reading_state input))(100 \<mapsto> example_file\<lparr>pending := rest\<rparr>)\<rparr>
   = reading_state rest"
  by (simp add: reading_state_def)

text \<open>
  The theorem of C5 on a stream that holds \<open>abc\<close> and no line terminator: the first read
  returns \<open>abc\<close>, the second finds the end of the stream; with the length 2 the read
  returns \<open>ab\<close>, and with the length 0 it fails and reads nothing.
\<close>

theorem get_line_end_of_stream_witness:
  "utl_file_get_nextline example_env (reading_state ''abc'') (Some 1)
     = (Inr (Some ''abc''), reading_state [])
   \<and> utl_file_get_line example_env (reading_state ''abc'') (Some 1) None
     = (Inr (Some ''abc''), reading_state [])
   \<and> utl_file_get_nextline example_env (reading_state []) (Some 1) = (Inr None, reading_state [])
   \<and> utl_file_get_line example_env (reading_state []) (Some 1) None
     = (Inl ERRCODE_NO_DATA_FOUND, reading_state [])
   \<and> utl_file_get_line example_env (reading_state ''abc'') (Some 1) (Some 2)
     = (Inr (Some ''ab''), reading_state ''c'')
   \<and> utl_file_get_line example_env (reading_state []) (Some 1) (Some 2)
     = (Inl ERRCODE_NO_DATA_FOUND, reading_state [])
   \<and> utl_file_get_line example_env (reading_state ''abc'') (Some 1) (Some 0)
     = (Inl INVALID_MAXLINESIZE, reading_state ''abc'')
   \<and> utl_file_get_line example_env (reading_state ''abc'') (Some 1) (Some 2000)
     = (Inr (Some ''abc''), reading_state [])"
proof -
  note t1 = get_line_end_of_stream [OF reading_state_handle [of "''abc''"],
      where s = "''abc''" and e = example_env and l = 2]
  note t2 = get_line_end_of_stream [OF reading_state_handle [of "[]"], where e = example_env
      and l = 2]
  note t3 = get_line_end_of_stream [OF reading_state_handle [of "''abc''"],
      where s = "''abc''" and e = example_env and l = 0]
  note t4 = get_line_end_of_stream [OF reading_state_handle [of "''abc''"],
      where s = "''abc''" and e = example_env and l = 2000]
  have nt: "CR \<notin> set ''abc''" "LF \<notin> set ''abc''" by (simp_all add: CR_def LF_def)
  have v: "pg_verifymbstr example_env x" for x by (simp add: example_env_def)
  have ls: "CHECK_LINESIZE 2" "\<not> CHECK_LINESIZE 0" "CHECK_LINESIZE 2000"
    by (simp_all add: CHECK_LINESIZE_def MAX_LINESIZE_def)
  have p: "pending (example_file\<lparr>pending := x\<rparr>) = x"
    "rd_errno (example_file\<lparr>pending := x\<rparr>) = None" for x
    by (simp_all add: example_file_def)
  have e0: "example_file\<lparr>pending := []\<rparr> = example_file\<lparr>pending := [], pending := []\<rparr>" by simp
  have a: "utl_file_get_nextline example_env (reading_state ''abc'') (Some 1)
       = (Inr (Some ''abc''), reading_state [])"
    "utl_file_get_line example_env (reading_state ''abc'') (Some 1) None
       = (Inr (Some ''abc''), reading_state [])"
    using t1 nt v p by (simp_all add: reading_state_read line_of_def rest_of_def CR_def LF_def)
  have b: "utl_file_get_nextline example_env (reading_state []) (Some 1) = (Inr None, reading_state [])"
    "utl_file_get_line example_env (reading_state []) (Some 1) None
       = (Inl ERRCODE_NO_DATA_FOUND, reading_state [])"
    "utl_file_get_line example_env (reading_state []) (Some 1) (Some 2)
       = (Inl ERRCODE_NO_DATA_FOUND, reading_state [])"
    using t2 p ls by (simp_all add: reading_state_read)
  have c: "utl_file_get_line example_env (reading_state ''abc'') (Some 1) (Some 2)
       = (Inr (Some ''ab''), reading_state ''c'')"
    using t1 v p ls by (simp add: reading_state_read line_of_def rest_of_def CR_def LF_def)
  have d: "utl_file_get_line example_env (reading_state ''abc'') (Some 1) (Some 0)
     = (Inl INVALID_MAXLINESIZE, reading_state ''abc'')"
    using t3 ls by simp
  have "utl_file_get_line example_env (reading_state ''abc'') (Some 1) (Some 2000)
     = utl_file_get_line example_env (reading_state ''abc'') (Some 1) None"
    using t4 ls by simp
  with a b c d show ?thesis by simp
qed

text \<open>
  Claim C5 as stated fails for a call of \<open>utl_file_get_line\<close> with a length: on a stream
  that holds \<open>abcdef\<close>, far from its end, \<open>utl_file_get_line\<close> with the length 2 returns \<open>ab\<close>
  and leaves \<open>cdef\<close> where \<open>utl_file_get_nextline\<close> returns \<open>abcdef\<close>; and with the length 0
  it fails where \<open>utl_file_get_nextline\<close> returns the line.
\<close>

theorem get_line_length_counterexample:
  "utl_file_get_line example_env (reading_state ''abcdef'') (Some 1) (Some 2)
     = (Inr (Some ''ab''), reading_state ''cdef'')
   \<and> utl_file_get_nextline example_env (reading_state ''abcdef'') (Some 1)
     = (Inr (Some ''abcdef''), reading_state [])
   \<and> utl_file_get_line example_env (reading_state ''abcdef'') (Some 1) (Some 0)
     = (Inl INVALID_MAXLINESIZE, reading_state ''abcdef'')"
proof -
  have v: "pg_verifymbstr example_env x" for x by (simp add: example_env_def)
  have p: "pending (example_file\<lparr>pending := x\<rparr>) = x" for x
    by (simp add: example_file_def)
  have a: "utl_file_get_line example_env (reading_state ''abcdef'') (Some 1) (Some 2)
     = (Inr (Some ''ab''), reading_state ''cdef'')"
    by (simp add: utl_file_get_line_len [OF reading_state_handle] CHECK_LINESIZE_def MAX_LINESIZE_def
        get_line_spec p v line_of_def rest_of_def CR_def LF_def reading_state_read)
  have b: "utl_file_get_nextline example_env (reading_state ''abcdef'') (Some 1)
     = (Inr (Some ''abcdef''), reading_state [])"
    by (simp add: utl_file_get_nextline_def reading_state_handle read_stream_def
        get_line_spec p v line_of_def rest_of_def CR_def LF_def reading_state_read)
  have c: "utl_file_get_line example_env (reading_state ''abcdef'') (Some 1) (Some 0)
     = (Inl INVALID_MAXLINESIZE, reading_state ''abcdef'')"
    by (simp add: utl_file_get_line_len [OF reading_state_handle] CHECK_LINESIZE_def)
  from a b c show ?thesis by simp
qed

subsection \<open>The formatted write\<close>

lemma put_char_ok:
  "wr_errno f = None \<Longrightarrow> cur_len \<le> mls \<Longrightarrow>
     put_char mls c f cur_len = Inr (f\<lparr>written := written f @ [c]\<rparr>)"
  by (simp add: put_char_def fputc_def)

lemma put_char_over:
  "mls < cur_len \<Longrightarrow> put_char mls c f cur_len = Inl VALUE_ERROR"
  by (simp add: put_char_def)

lemma BACKSLASH_neq_percent [simp]: "BACKSLASH \<noteq> CHR ''%''" "CHR ''%'' \<noteq> BACKSLASH"
  by (simp_all add: BACKSLASH_def)

lemma concat_putf_tokens: "concat (putf_tokens args cur_par fmt) = putf_output args cur_par fmt"
  by (induction args cur_par fmt rule: putf_tokens.induct) (simp_all split: option.splits)

lemma fitting_all:
  "int (length (concat ts)) \<le> room \<Longrightarrow> fitting room ts = ts"
  by (induction ts arbitrary: room) simp_all

lemma emit_token:
  assumes wr: "wr_errno f = None"
      and ih: "\<And>f1. wr_errno f1 = None \<Longrightarrow> cur_len + 1 \<le> mls \<Longrightarrow>
                 K f1 = (if cur_len + 1 + int (length (concat ts)) \<le> mls then Inr ()
                         else Inl VALUE_ERROR,
                         f1\<lparr>written := written f1 @ concat (fitting (mls - (cur_len + 1)) ts)\<rparr>)"
  shows "(case put_char mls c f (cur_len + 1) of Inl err \<Rightarrow> (Inl err, f) | Inr f1 \<Rightarrow> K f1)
           = (if cur_len + int (length (concat ([c] # ts))) \<le> mls then Inr ()
              else Inl VALUE_ERROR,
              f\<lparr>written := written f @ concat (fitting (mls - cur_len) ([c] # ts))\<rparr>)"
proof (cases "cur_len + 1 \<le> mls")
  case False
  then have "\<not> cur_len + 1 + int (length (concat ts)) \<le> mls" by simp
  with False show ?thesis by (simp add: put_char_over)
next
  case True
  let ?f1 = "f\<lparr>written := written f @ [c]\<rparr>"
  have r: "mls - cur_len - 1 = mls - (cur_len + 1)" by simp
  from ih [of ?f1] wr True
  have "K ?f1 = (if cur_len + 1 + int (length (concat ts)) \<le> mls then Inr ()
                         else Inl VALUE_ERROR,
                 f\<lparr>written := written f @ [c] @ concat (fitting (mls - (cur_len + 1)) ts)\<rparr>)"
    by simp
  with wr True show ?thesis by (simp add: put_char_ok r add.assoc)
qed

lemma putf_loop_tokens:
  assumes "wr_errno f = None" and "cur_len \<le> mls"
  shows "putf_loop args mls fmt f cur_par cur_len =
     (if cur_len + int (length (concat (putf_tokens args cur_par fmt))) \<le> mls then Inr ()
      else Inl VALUE_ERROR,
      f\<lparr>written := written f @ concat (fitting (mls - cur_len) (putf_tokens args cur_par fmt))\<rparr>)"
  using assms
proof (induction args cur_par fmt arbitrary: f cur_len rule: putf_tokens.induct)
  case (1 args cur_par)
  then show ?case by simp
next
  case (2 args cur_par c)
  have "putf_loop args mls [] f1 cur_par (cur_len + 1)
      = (if cur_len + 1 + int (length (concat ([] :: string list))) \<le> mls then Inr ()
         else Inl VALUE_ERROR,
         f1\<lparr>written := written f1 @ concat (fitting (mls - (cur_len + 1)) [])\<rparr>)"
    if "wr_errno f1 = None" "cur_len + 1 \<le> mls" for f1
    using that by simp
  from emit_token [OF "2.prems"(1) this, of c] show ?case by simp
next
  case (3 args cur_par c c1 fmt)
  note wr = \<open>wr_errno f = None\<close> and le = \<open>cur_len \<le> mls\<close>
  show ?case
  proof (cases "c = BACKSLASH \<and> c1 = CHR ''n''")
    case True
    have "putf_loop args mls fmt f1 cur_par (cur_len + 1)
        = (if cur_len + 1 + int (length (concat (putf_tokens args cur_par fmt))) \<le> mls then Inr ()
           else Inl VALUE_ERROR,
           f1\<lparr>written := written f1 @ concat (fitting (mls - (cur_len + 1)) (putf_tokens args cur_par fmt))\<rparr>)"
      if "wr_errno f1 = None" "cur_len + 1 \<le> mls" for f1
      using "3.IH"(1) [OF True that] .
    from emit_token [OF wr this, of LF] True show ?thesis by simp
  next
    case False
    then have nl: "(c = BACKSLASH \<and> c1 = CHR ''n'') = False" by simp
    show ?thesis
    proof (cases "c = CHR ''%''")
      case np: False
      have "putf_loop args mls (c1 # fmt) f1 cur_par (cur_len + 1)
          = (if cur_len + 1 + int (length (concat (putf_tokens args cur_par (c1 # fmt)))) \<le> mls then Inr ()
             else Inl VALUE_ERROR,
             f1\<lparr>written := written f1 @ concat (fitting (mls - (cur_len + 1)) (putf_tokens args cur_par (c1 # fmt)))\<rparr>)"
        if "wr_errno f1 = None" "cur_len + 1 \<le> mls" for f1
        using "3.IH"(5) [of f1 "cur_len + 1"] False np that by simp
      from emit_token [OF wr this, of c] np show ?thesis by (simp add: nl)
    next
      case True
      show ?thesis
      proof (cases "c1 = CHR ''%''")
        case pc: True
        have "putf_loop args mls fmt f1 cur_par (cur_len + 1)
            = (if cur_len + 1 + int (length (concat (putf_tokens args cur_par fmt))) \<le> mls then Inr ()
               else Inl VALUE_ERROR,
               f1\<lparr>written := written f1 @ concat (fitting (mls - (cur_len + 1)) (putf_tokens args cur_par fmt))\<rparr>)"
          if "wr_errno f1 = None" "cur_len + 1 \<le> mls" for f1
          using "3.IH"(2) [of f1 "cur_len + 1"] False True pc that by simp
        from emit_token [OF wr this, of "CHR ''%''"] True pc show ?thesis by simp
      next
        case pp: False
        show ?thesis
        proof (cases "c1 = CHR ''s''")
          case False
          with pp True 3 show ?thesis by simp
        next
          case s: True
          show ?thesis
          proof (cases "cur_par + 1 \<le> 5")
            case False
            with s pp True 3 show ?thesis by simp
          next
            case five: True
            show ?thesis
            proof (cases "putf_arg args (cur_par + 1 + 1)")
              case None
              with five s pp True 3 show ?thesis by simp
            next
              case (Some buffer)
              show ?thesis
              proof (cases "cur_len + int (length buffer) \<le> mls")
                case False
                then have "\<not> cur_len + (int (length buffer)
                    + int (length (concat (putf_tokens args (cur_par + 1) fmt)))) \<le> mls"
                  by simp
                with False Some five s pp True show ?thesis by simp
              next
                case fits: True
                let ?f1 = "f\<lparr>written := written f @ buffer\<rparr>"
                have r: "mls - cur_len - int (length buffer) = mls - (cur_len + int (length buffer))"
                  by simp
                have "putf_loop args mls fmt ?f1 (cur_par + 1) (cur_len + int (length buffer))
                    = (if cur_len + int (length buffer)
                            + int (length (concat (putf_tokens args (cur_par + 1) fmt))) \<le> mls
                       then Inr () else Inl VALUE_ERROR,
                       ?f1\<lparr>written := written ?f1 @ concat (fitting (mls - (cur_len + int (length buffer)))
                          (putf_tokens args (cur_par + 1) fmt))\<rparr>)"
                  using "3.IH"(3) [of ?f1 "cur_len + int (length buffer)"] False pp s True wr fits
                  by simp
                with Some five s pp True fits wr show ?thesis
                  by (simp add: fputs_def r add.assoc)
              qed
            qed
          qed
        qed
      qed
    qed
  qed
qed

text \<open>
  Claim C6, as amended. Let the handle \<open>d\<close> stand for a stream that accepts writes, with
  a line size \<open>mls\<close> that is not negative. \<open>utl_file_putf\<close> writes the characters of
  \<open>putf_output\<close>, in their order: a newline for \<open>\n\<close>, \<open>%\<close> for \<open>%%\<close>, for \<open>%s\<close> the next
  argument when it is one of the first five and not null and nothing otherwise,
  nothing for \<open>%\<close> and the character after it when that is neither \<open>%\<close> nor \<open>s\<close>, and
  every other character as it is, the last character of the format always. They are
  written in the pieces of \<open>putf_tokens\<close>, a character or a whole argument at a time.
  When they are at most \<open>mls\<close> characters, the call returns true and has written them
  all. When they are more, the call fails with \<open>VALUE_ERROR\<close> and has written exactly
  the pieces before the first one with which the line would exceed \<open>mls\<close> characters.
\<close>

theorem putf_format:
  assumes "get_stream st d = Inr (Some p, mls)" and "streams st p = Some f"
      and "wr_errno f = None" and "0 \<le> mls"
  shows "concat (putf_tokens args 0 fmt) = putf_output args 0 fmt
       \<and> (int (length (putf_output args 0 fmt)) \<le> mls \<longrightarrow>
            utl_file_putf st (Some d) (Some fmt) args
              = (Inr True,
                 st\<lparr>streams := (streams st)(p \<mapsto> f\<lparr>written := written f @ putf_output args 0 fmt\<rparr>)\<rparr>))
       \<and> (mls < int (length (putf_output args 0 fmt)) \<longrightarrow>
            utl_file_putf st (Some d) (Some fmt) args
              = (Inl VALUE_ERROR,
                 st\<lparr>streams := (streams st)(p \<mapsto>
                    f\<lparr>written := written f @ concat (fitting mls (putf_tokens args 0 fmt))\<rparr>)\<rparr>))"
proof -
  note c = concat_putf_tokens [of args 0 fmt]
  from putf_loop_tokens [OF assms(3), of 0 mls args fmt 0] assms(4)
  have l: "putf_loop args mls fmt f 0 0 =
     (if int (length (putf_output args 0 fmt)) \<le> mls then Inr () else Inl VALUE_ERROR,
      f\<lparr>written := written f @ concat (fitting mls (putf_tokens args 0 fmt))\<rparr>)"
    by (simp add: c)
  have 1: "utl_file_putf st (Some d) (Some fmt) args
              = (Inr True,
                 st\<lparr>streams := (streams st)(p \<mapsto> f\<lparr>written := written f @ putf_output args 0 fmt\<rparr>)\<rparr>)"
    if "int (length (putf_output args 0 fmt)) \<le> mls"
  proof -
    from that have "fitting mls (putf_tokens args 0 fmt) = putf_tokens args 0 fmt"
      by (intro fitting_all) (simp add: c)
    with l that assms(1,2) show ?thesis by (simp add: utl_file_putf_def c)
  qed
  have 2: "utl_file_putf st (Some d) (Some fmt) args
              = (Inl VALUE_ERROR,
                 st\<lparr>streams := (streams st)(p \<mapsto>
                    f\<lparr>written := written f @ concat (fitting mls (putf_tokens args 0 fmt))\<rparr>)\<rparr>)"
    if "mls < int (length (putf_output args 0 fmt))"
  proof -
    from that have "(int (length (putf_output args 0 fmt)) \<le> mls) = False" by simp
    with l assms(1,2) show ?thesis by (simp add: utl_file_putf_def)
  qed
  from c 1 2 show ?thesis by blast
qed

lemmas putf_eval = utl_file_putf_def get_stream_def reading_state_def INVALID_SLOTID_def
  MAX_SLOTS_def put_char_def fputc_def fputs_def putf_arg_def example_file_def BACKSLASH_def LF_def

lemma writing_state_handle:
  "get_stream (writing_state mls) 1 = Inr (Some 100, mls)"
  "streams (writing_state mls) 100 = Some example_file"
  by (simp_all add: writing_state_def get_stream_def INVALID_SLOTID_def MAX_SLOTS_def)

text \<open>
  The theorem of C6 on the formats \<open>a%sb\nc\<close> with the argument \<open>X\<close> and \<open>%%\<close> for a line
  size of 1024, and for a line size of 5 on the format \<open>abcdef\<close>, of which \<open>abcde\<close> is
  written, and on the format \<open>ab%scd\<close> with the argument \<open>wxyz\<close>, of which \<open>ab\<close> is
  written.
\<close>

theorem putf_format_witness:
  "utl_file_putf (writing_state 1024) (Some 1) (Some (''a%sb'' @ [BACKSLASH] @ ''nc''))
       [Some ''X'', None, None, None, None]
     = (Inr True, (writing_state 1024)\<lparr>streams := (streams (writing_state 1024))
          (100 \<mapsto> example_file\<lparr>written := ''aXb'' @ [LF] @ ''c''\<rparr>)\<rparr>)
   \<and> utl_file_putf (writing_state 1024) (Some 1) (Some ''%%'') [None, None, None, None, None]
     = (Inr True, (writing_state 1024)\<lparr>streams := (streams (writing_state 1024))
          (100 \<mapsto> example_file\<lparr>written := ''%''\<rparr>)\<rparr>)
   \<and> utl_file_putf (writing_state 5) (Some 1) (Some ''abcdef'') [None, None, None, None, None]
     = (Inl VALUE_ERROR, (writing_state 5)\<lparr>streams := (streams (writing_state 5))
          (100 \<mapsto> example_file\<lparr>written := ''abcde''\<rparr>)\<rparr>)
   \<and> utl_file_putf (writing_state 5) (Some 1) (Some ''ab%scd'') [Some ''wxyz'', None, None, None, None]
     = (Inl VALUE_ERROR, (writing_state 5)\<lparr>streams := (streams (writing_state 5))
          (100 \<mapsto> example_file\<lparr>written := ''ab''\<rparr>)\<rparr>)"
proof -
  have w: "wr_errno example_file = None" by (simp add: example_file_def)
  have m: "(0 :: int) \<le> 1024" "(0 :: int) \<le> 5" by simp_all
  note t = putf_format [OF writing_state_handle [of 1024] w m(1)]
  note t5 = putf_format [OF writing_state_handle [of 5] w m(2)]
  have o1: "putf_output [Some ''X'', None, None, None, None] 0 (''a%sb'' @ [BACKSLASH] @ ''nc'')
      = ''aXb'' @ [LF] @ ''c''"
    by (simp add: putf_arg_def BACKSLASH_def)
  have o2: "putf_output [None, None, None, None, None] 0 ''%%'' = ''%''"
    by (simp add: BACKSLASH_def)
  have o3: "putf_output [None, None, None, None, None] 0 ''abcdef'' = ''abcdef''"
    "concat (fitting 5 (putf_tokens [None, None, None, None, None] 0 ''abcdef'')) = ''abcde''"
    by (simp_all add: BACKSLASH_def)
  have o4: "putf_output [Some ''wxyz'', None, None, None, None] 0 ''ab%scd'' = ''abwxyzcd''"
    "concat (fitting 5 (putf_tokens [Some ''wxyz'', None, None, None, None] 0 ''ab%scd'')) = ''ab''"
    by (simp_all add: putf_arg_def BACKSLASH_def)
  have w0: "written example_file = []" by (simp add: example_file_def)
  from t [of "[Some ''X'', None, None, None, None]" "''a%sb'' @ [BACKSLASH] @ ''nc''"]
  have a: "utl_file_putf (writing_state 1024) (Some 1) (Some (''a%sb'' @ [BACKSLASH] @ ''nc''))
       [Some ''X'', None, None, None, None]
     = (Inr True, (writing_state 1024)\<lparr>streams := (streams (writing_state 1024))
          (100 \<mapsto> example_file\<lparr>written := ''aXb'' @ [LF] @ ''c''\<rparr>)\<rparr>)"
    unfolding o1 by (simp add: w0)
  from t [of "[None, None, None, None, None]" "''%%''"]
  have b: "utl_file_putf (writing_state 1024) (Some 1) (Some ''%%'') [None, None, None, None, None]
     = (Inr True, (writing_state 1024)\<lparr>streams := (streams (writing_state 1024))
          (100 \<mapsto> example_file\<lparr>written := ''%''\<rparr>)\<rparr>)"
    unfolding o2 by (simp add: w0)
  from t5 [of "[None, None, None, None, None]" "''abcdef''"]
  have c: "utl_file_putf (writing_state 5) (Some 1) (Some ''abcdef'') [None, None, None, None, None]
     = (Inl VALUE_ERROR, (writing_state 5)\<lparr>streams := (streams (writing_state 5))
          (100 \<mapsto> example_file\<lparr>written := ''abcde''\<rparr>)\<rparr>)"
    unfolding o3 by (simp add: w0)
  from t5 [of "[Some ''wxyz'', None, None, None, None]" "''ab%scd''"]
  have d: "utl_file_putf (writing_state 5) (Some 1) (Some ''ab%scd'') [Some ''wxyz'', None, None, None, None]
     = (Inl VALUE_ERROR, (writing_state 5)\<lparr>streams := (streams (writing_state 5))
          (100 \<mapsto> example_file\<lparr>written := ''ab''\<rparr>)\<rparr>)"
    unfolding o4 by (simp add: w0)
  from a b c d show ?thesis by simp
qed

text \<open>
  Claim C6 as stated fails at the format \<open>%dx\<close>: every character of it is to be written
  as it is, and \<open>utl_file_putf\<close> writes the \<open>x\<close> alone.
\<close>

theorem putf_percent_counterexample:
  "putf_claimed [None, None, None, None, None] 0 ''%dx'' = ''%dx''
   \<and> utl_file_putf (reading_state []) (Some 1) (Some ''%dx'') [None, None, None, None, None]
     = (Inr True, (reading_state [])\<lparr>streams := (streams (reading_state []))
          (100 \<mapsto> example_file\<lparr>pending := [], written := ''x''\<rparr>)\<rparr>)"
  by (simp add: putf_eval)

end
